theory Spec2Isabelle
  imports Main "HOL-Library.Word"
begin

unbundle bit_operations_syntax

section \<open>The waveform audio engine of projectoxford (\<open>_audio_win32.pyx\<close>)\<close>

text \<open>
  The module drives the Windows waveform audio subsystem (winmm) from Cython. The
  subsystem, the completion event and the two callbacks are outside the module, so they
  are parameters of the model: an environment \<open>env\<close> answers every subsystem call, and a
  callback is the sequence of what its invocations do. Every interaction is appended
  to a trace (a list of events, oldest first); the trace is the only state the functions
  thread, and the moment of an interaction is the length of the trace before it.
\<close>

subsection \<open>C integers\<close>

text \<open>
  The types \<open>WORD\<close> and \<open>DWORD\<close> are declared inside \<open>cdef extern from "windows.h"\<close>:
  Cython takes from such a block only that they are integer types, the C compiler takes the
  definitions from the header, where \<open>WORD\<close> is an unsigned 16-bit and \<open>DWORD\<close> an unsigned
  32-bit integer. A parameter declared \<open>int\<close> is a C \<open>int\<close> of 32 bits; converting a Python
  integer outside its range raises \<open>OverflowError\<close> before the body runs. Values are
  mathematical integers here and every conversion is written out. A product of two C
  \<open>int\<close>s that leaves the range is reduced to it (what the compilers for this platform
  emit; ISO C leaves it undefined). The declarations \<open>ctypedef int WORD\<close> give \<open>WORD\<close> the
  rank of \<open>int\<close>, and of two integer types of the same rank Cython keeps the typedef: a
  product of a \<open>WORD\<close> and an \<open>int\<close> has the type \<open>WORD\<close>. The C compiler computes it in
  \<open>int\<close>, and where Cython converts it to a Python integer the value passes through a
  \<open>WORD\<close>, that is, it is reduced to 16 bits.
\<close>

definition c_int_range :: "int \<Rightarrow> bool" where
  "c_int_range x = (- (2 ^ 31) \<le> x \<and> x < 2 ^ 31)"

definition DWORD_range :: "int \<Rightarrow> bool" where
  "DWORD_range x = (0 \<le> x \<and> x < 2 ^ 32)"

definition c_int :: "int \<Rightarrow> int" where
  "c_int x = (x + 2 ^ 31) mod 2 ^ 32 - 2 ^ 31"

definition to_WORD :: "int \<Rightarrow> int" where
  "to_WORD x = x mod 2 ^ 16"

definition to_DWORD :: "int \<Rightarrow> int" where
  "to_DWORD x = x mod 2 ^ 32"

subsection \<open>Data\<close>

record WAVEFORMATEX =
  wFormatTag :: int
  nChannels :: int
  nSamplesPerSec :: int
  nAvgBytesPerSec :: int
  nBlockAlign :: int
  wBitsPerSample :: int
  cbSize :: int

text \<open>
  A Python buffer object: an immutable \<open>bytes\<close> value, or a \<open>bytearray\<close>, which is a
  mutable region with an identity (the number of its allocation within the call) and a
  length. What a region holds is written by the device and is not modelled.
\<close>

datatype pybuffer = Bytes "8 word list" | ByteArray nat nat

fun len :: "pybuffer \<Rightarrow> nat" where
  "len (Bytes bs) = length bs"
| "len (ByteArray i n) = n"

text \<open>
  The fields of a \<open>WAVEHDR\<close> the module writes. \<open>ZeroMemory\<close> leaves \<open>lpData\<close> null
  (\<open>None\<close>). The field \<open>dwFlags\<close> is written by the device while the header is queued, so
  reading it is an observation of the environment.
\<close>

record WAVEHDR =
  lpData :: "pybuffer option"
  dwBufferLength :: int

definition ZeroMemory :: WAVEHDR where
  "ZeroMemory = \<lparr>lpData = None, dwBufferLength = 0\<rparr>"

text \<open>The two header variables \<open>hdr1\<close> and \<open>hdr2\<close> of \<open>play\<close> and \<open>record\<close>; \<open>phdr\<close> and
  \<open>pnext_hdr\<close> point to them.\<close>

datatype hdr = hdr1 | hdr2

datatype call =
    CreateEventW
  | waveOutOpen int WAVEFORMATEX
  | waveOutReset
  | waveOutClose
  | waveOutPrepareHeader hdr WAVEHDR
  | waveOutUnprepareHeader hdr WAVEHDR
  | waveOutWrite hdr WAVEHDR
  | waveInOpen int WAVEFORMATEX
  | waveInStart
  | waveInStop
  | waveInReset
  | waveInClose
  | waveInPrepareHeader hdr WAVEHDR
  | waveInUnprepareHeader hdr WAVEHDR
  | waveInAddBuffer hdr WAVEHDR

datatype exn =
    OSError string
  | OverflowError
  | IndexError
  | UserError string

text \<open>What one invocation of a callback does: return a value or raise.\<close>

datatype 'a cb = Return 'a | Raise exn

datatype event =
    Call call int
  | Wait hdr int int
  | GetData "pybuffer option cb"
  | OnChunk pybuffer "bool cb"
  | Unraisable exn

text \<open>
  \<open>Call c r\<close>: the subsystem call \<open>c\<close> returned \<open>r\<close>. \<open>Wait h r f\<close>: a
  \<open>WaitForSingleObject\<close> on the completion event returned \<open>r\<close> while the engine waits
  for header \<open>h\<close>, whose \<open>dwFlags\<close> are \<open>f\<close> at that moment. \<open>Unraisable e\<close>: an exception
  that a \<open>cdef void\<close> function could not propagate, printed and dropped.
\<close>

record env =
  mmresult :: "nat \<Rightarrow> call \<Rightarrow> int"
  WaitForSingleObject :: "nat \<Rightarrow> int"
  dwFlags :: "nat \<Rightarrow> hdr \<Rightarrow> int"
  waveInGetErrorTextW :: "int \<Rightarrow> int \<times> string"
  waveOutGetErrorTextW :: "int \<Rightarrow> int \<times> string"
  legacy_implicit_noexcept :: bool

text \<open>
  \<open>mmresult env t c\<close> is what call \<open>c\<close> returns when made at moment \<open>t\<close>. The two
  \<open>GetErrorTextW\<close> functions return their result code and the text they wrote.
  \<open>legacy_implicit_noexcept\<close> is the Cython directive of that name: when set (the only
  behaviour before Cython 3), an exception inside a \<open>cdef void\<close> function declared
  without an \<open>except\<close> clause is printed and dropped; otherwise it propagates.
\<close>

definition dev :: "env \<Rightarrow> call \<Rightarrow> event list \<Rightarrow> int \<times> event list" where
  "dev env c tr = (let r = mmresult env (length tr) c in (r, tr @ [Call c r]))"

subsection \<open>Result codes and the error translator\<close>

text \<open>
  Modelled from the spec: the result codes are declared extern from \<open>windows.h\<close>, which is
  not part of the repository; the spec names a \<open>NOERROR\<close> code and the known codes
  still-playing, invalid-handle, no-driver and out-of-memory. The values are those of the
  platform header \<open>mmsystem.h\<close>.
\<close>

definition MMSYSERR_NOERROR :: int where "MMSYSERR_NOERROR = 0"
definition MMSYSERR_INVALHANDLE :: int where "MMSYSERR_INVALHANDLE = 5"
definition MMSYSERR_NODRIVER :: int where "MMSYSERR_NODRIVER = 6"
definition MMSYSERR_NOMEM :: int where "MMSYSERR_NOMEM = 7"
definition WAVERR_STILLPLAYING :: int where "WAVERR_STILLPLAYING = 33"
definition WAVE_FORMAT_PCM :: int where "WAVE_FORMAT_PCM = 1"

definition ERROR_CODES :: "(int \<times> string) list" where
  "ERROR_CODES =
    [(WAVERR_STILLPLAYING, ''WAVERR_STILLPLAYING''),
     (MMSYSERR_INVALHANDLE, ''MMSYSERR_INVALHANDLE''),
     (MMSYSERR_NODRIVER, ''MMSYSERR_NODRIVER''),
     (MMSYSERR_NOMEM, ''MMSYSERR_NOMEM'')]"

text \<open>Python's \<open>dict.get(key, default)\<close>.\<close>

definition dict_get :: "('k \<times> 'v) list \<Rightarrow> 'k \<Rightarrow> 'v \<Rightarrow> 'v" where
  "dict_get d k dflt = (case map_of d k of Some v \<Rightarrow> v | None \<Rightarrow> dflt)"

text \<open>Python's \<open>'{:x}'.format(r)\<close>: lower-case hexadecimal, a minus sign for a negative
  number.\<close>

definition hex_digit :: "nat \<Rightarrow> char" where
  "hex_digit d = ''0123456789abcdef'' ! d"

function hex_nat :: "nat \<Rightarrow> string" where
  "hex_nat n = (if n < 16 then [hex_digit n] else hex_nat (n div 16) @ [hex_digit (n mod 16)])"
  by pat_completeness auto
termination
  by (relation "measure id") auto

declare hex_nat.simps [simp del]

definition format_x :: "int \<Rightarrow> string" where
  "format_x r = (if r < 0 then ''-'' @ hex_nat (nat (- r)) else hex_nat (nat r))"

definition failed_to :: "string \<Rightarrow> string \<Rightarrow> int \<Rightarrow> string" where
  "failed_to cause msg r = ''Failed to '' @ cause @ '': '' @ msg @ '' (0x'' @ format_x r @ '')''"

text \<open>
  Assigning a Python object to a C array of \<open>n\<close> items, as in \<open>msg = ERROR_CODES.get(...)\<close>
  with \<open>cdef Py_UNICODE[256] msg\<close>: Cython copies the items when the object has exactly
  \<open>n\<close> of them and raises \<open>IndexError\<close> otherwise.
\<close>

definition carray_from_py :: "nat \<Rightarrow> string \<Rightarrow> exn + string" where
  "carray_from_py n s = (if length s = n then Inr s else Inl IndexError)"

text \<open>
  \<open>check_mmresult\<close> returns 0 for \<open>MMSYSERR_NOERROR\<close>. For any other code it first asks
  the subsystem for its error text, written into the array \<open>msg\<close>; the table \<open>ERROR_CODES\<close>
  is consulted only when that lookup fails (\<open>r2\<close> not zero), and the name found there is
  assigned to the array \<open>msg\<close> before the \<open>OSError\<close> is built.
\<close>

definition get_error_text :: "env \<Rightarrow> bool \<Rightarrow> int \<Rightarrow> int \<times> string" where
  "get_error_text env for_in r =
    (if for_in then waveInGetErrorTextW env r else waveOutGetErrorTextW env r)"

definition check_mmresult :: "env \<Rightarrow> int \<Rightarrow> string \<Rightarrow> bool \<Rightarrow> exn + int" where
  "check_mmresult env r cause for_in =
    (if r = MMSYSERR_NOERROR then Inr 0
     else
       let (r2, msg) = get_error_text env for_in r
       in if r2 \<noteq> 0
          then (case carray_from_py 256 (dict_get ERROR_CODES r ''UNKNOWN_ERROR'') of
                  Inl e \<Rightarrow> Inl e
                | Inr msg' \<Rightarrow> Inl (OSError (failed_to cause msg' r)))
          else Inl (OSError (failed_to cause msg r)))"

definition check_mmr_in :: "env \<Rightarrow> int \<Rightarrow> string \<Rightarrow> exn + int" where
  "check_mmr_in env r cause = check_mmresult env r cause True"

definition check_mmr_out :: "env \<Rightarrow> int \<Rightarrow> string \<Rightarrow> exn + int" where
  "check_mmr_out env r cause = check_mmresult env r cause False"

subsection \<open>Construction\<close>

text \<open>
  The object a constructor leaves: the completion event handle and the format. (The device
  handle is opaque and a model run has one device, so it is not carried.)
\<close>

record device =
  c_evt :: int
  c_fmt :: WAVEFORMATEX

definition make_fmt :: "int \<Rightarrow> int \<Rightarrow> int \<Rightarrow> WAVEFORMATEX" where
  "make_fmt nchannels framerate sampwidth =
    \<lparr>wFormatTag = WAVE_FORMAT_PCM,
     nChannels = to_WORD nchannels,
     nSamplesPerSec = to_DWORD framerate,
     nAvgBytesPerSec = to_DWORD (c_int (c_int (sampwidth * nchannels) * framerate)),
     nBlockAlign = to_WORD (c_int (sampwidth * nchannels)),
     wBitsPerSample = to_WORD (c_int (sampwidth * 8)),
     cbSize = 0\<rparr>"

definition PlaybackDevice_cinit ::
  "env \<Rightarrow> int \<Rightarrow> int \<Rightarrow> int \<Rightarrow> int \<Rightarrow> event list \<Rightarrow> (exn + device) \<times> event list" where
  "PlaybackDevice_cinit env dev_id nchannels framerate sampwidth tr =
    (if \<not> (DWORD_range dev_id \<and> c_int_range nchannels \<and> c_int_range framerate \<and> c_int_range sampwidth)
     then (Inl OverflowError, tr)
     else
       let (evt, tr1) = dev env CreateEventW tr;
           fmt = make_fmt nchannels framerate sampwidth;
           (r, tr2) = dev env (waveOutOpen dev_id fmt) tr1
       in case check_mmr_out env r ''open audio device'' of
            Inl e \<Rightarrow> (Inl e, tr2)
          | Inr _ \<Rightarrow> (Inr \<lparr>c_evt = evt, c_fmt = fmt\<rparr>, tr2))"

definition RecordingDevice_cinit ::
  "env \<Rightarrow> int \<Rightarrow> int \<Rightarrow> int \<Rightarrow> int \<Rightarrow> event list \<Rightarrow> (exn + device) \<times> event list" where
  "RecordingDevice_cinit env dev_id nchannels framerate sampwidth tr =
    (if \<not> (DWORD_range dev_id \<and> c_int_range nchannels \<and> c_int_range framerate \<and> c_int_range sampwidth)
     then (Inl OverflowError, tr)
     else
       let (evt, tr1) = dev env CreateEventW tr;
           fmt = make_fmt nchannels framerate sampwidth;
           (r, tr2) = dev env (waveInOpen dev_id fmt) tr1
       in case check_mmr_in env r ''open audio device'' of
            Inl e \<Rightarrow> (Inl e, tr2)
          | Inr _ \<Rightarrow> (Inr \<lparr>c_evt = evt, c_fmt = fmt\<rparr>, tr2))"

subsection \<open>Submitting and releasing a header\<close>

text \<open>
  The four helpers are \<open>cdef void\<close> functions without an \<open>except\<close> clause. An exception
  raised by \<open>check_mmresult\<close> inside one of them ends the helper at once (a failed prepare
  skips the enqueue); whether the caller sees it is decided by \<open>legacy_implicit_noexcept\<close>.
\<close>

definition cdef_void_raise :: "env \<Rightarrow> exn \<Rightarrow> event list \<Rightarrow> (exn + unit) \<times> event list" where
  "cdef_void_raise env e tr =
    (if legacy_implicit_noexcept env then (Inr (), tr @ [Unraisable e]) else (Inl e, tr))"

definition hdr_in_prepare_add ::
  "env \<Rightarrow> hdr \<Rightarrow> WAVEHDR \<Rightarrow> event list \<Rightarrow> (exn + unit) \<times> event list" where
  "hdr_in_prepare_add env h w tr =
    (let (r, tr1) = dev env (waveInPrepareHeader h w) tr
     in case check_mmr_in env r ''prepare audio buffer'' of
          Inl e \<Rightarrow> cdef_void_raise env e tr1
        | Inr _ \<Rightarrow>
            (let (r', tr2) = dev env (waveInAddBuffer h w) tr1
             in (case check_mmr_in env r' ''add audio buffer'' of
                   Inl e \<Rightarrow> cdef_void_raise env e tr2
                 | Inr _ \<Rightarrow> (Inr (), tr2))))"

definition hdr_in_unprepare ::
  "env \<Rightarrow> hdr \<Rightarrow> WAVEHDR \<Rightarrow> event list \<Rightarrow> (exn + unit) \<times> event list" where
  "hdr_in_unprepare env h w tr =
    (let (r, tr1) = dev env (waveInUnprepareHeader h w) tr
     in case check_mmr_in env r ''unprepare audio buffer'' of
          Inl e \<Rightarrow> cdef_void_raise env e tr1
        | Inr _ \<Rightarrow> (Inr (), tr1))"

definition hdr_out_prepare_write ::
  "env \<Rightarrow> hdr \<Rightarrow> WAVEHDR \<Rightarrow> event list \<Rightarrow> (exn + unit) \<times> event list" where
  "hdr_out_prepare_write env h w tr =
    (let (r, tr1) = dev env (waveOutPrepareHeader h w) tr
     in case check_mmr_out env r ''prepare audio data'' of
          Inl e \<Rightarrow> cdef_void_raise env e tr1
        | Inr _ \<Rightarrow>
            (let (r', tr2) = dev env (waveOutWrite h w) tr1
             in (case check_mmr_out env r' ''write audio data'' of
                   Inl e \<Rightarrow> cdef_void_raise env e tr2
                 | Inr _ \<Rightarrow> (Inr (), tr2))))"

definition hdr_out_unprepare ::
  "env \<Rightarrow> hdr \<Rightarrow> WAVEHDR \<Rightarrow> event list \<Rightarrow> (exn + unit) \<times> event list" where
  "hdr_out_unprepare env h w tr =
    (let (r, tr1) = dev env (waveOutUnprepareHeader h w) tr
     in case check_mmr_out env r ''unprepare audio buffer'' of
          Inl e \<Rightarrow> cdef_void_raise env e tr1
        | Inr _ \<Rightarrow> (Inr (), tr1))"

subsection \<open>Callbacks\<close>

text \<open>
  A callback is given by what each of its invocations does, numbered from 0 within the
  call of \<open>play\<close> or \<open>record\<close>; the consumer also sees the buffer it is handed. The
  producer returns \<open>None\<close> or a buffer object, as the docstring of \<open>play\<close> asks; the
  result of the consumer is the truth value of what it returns (\<open>bool(on_chunk(data1))\<close>).
\<close>

fun is_invocation :: "event \<Rightarrow> bool" where
  "is_invocation (GetData _) = True"
| "is_invocation (OnChunk _ _) = True"
| "is_invocation _ = False"

definition invocations :: "event list \<Rightarrow> nat" where
  "invocations tr = length (filter is_invocation tr)"

definition call_get_data ::
  "(nat \<Rightarrow> pybuffer option cb) \<Rightarrow> event list \<Rightarrow> pybuffer option cb \<times> event list" where
  "call_get_data get_data tr =
    (let res = get_data (invocations tr) in (res, tr @ [GetData res]))"

definition call_on_chunk ::
  "(nat \<Rightarrow> pybuffer \<Rightarrow> bool cb) \<Rightarrow> pybuffer \<Rightarrow> event list \<Rightarrow> bool cb \<times> event list" where
  "call_on_chunk on_chunk data tr =
    (let res = on_chunk (invocations tr) data in (res, tr @ [OnChunk data res]))"

subsection \<open>Waiting for the current header\<close>

text \<open>
  The inner \<open>while True\<close> loop of \<open>play\<close> and \<open>record\<close>: wait on the event for at most
  500 ms, then leave the loop if the wait did not return 0 or bit 0 of the current
  header's \<open>dwFlags\<close> is set. It may run forever; not returning is \<open>None\<close>.
\<close>

partial_function (option) wait_loop :: "env \<Rightarrow> hdr \<Rightarrow> event list \<Rightarrow> event list option" where
  "wait_loop env phdr tr =
    (let r = WaitForSingleObject env (length tr);
         f = dwFlags env (length tr) phdr;
         tr' = tr @ [Wait phdr r f]
     in if r \<noteq> 0 \<or> f AND 1 = 1 then Some tr' else wait_loop env phdr tr')"

declare wait_loop.simps [code]

text \<open>The events of \<open>n\<close> consecutive waits for header \<open>h\<close> that start at moment \<open>t\<close>.\<close>

definition waits_from :: "env \<Rightarrow> hdr \<Rightarrow> nat \<Rightarrow> nat \<Rightarrow> event list" where
  "waits_from env h t n =
    map (\<lambda>i. Wait h (WaitForSingleObject env (t + i)) (dwFlags env (t + i) h)) [0..<n]"

subsection \<open>\<open>PlaybackDevice.play\<close>\<close>

text \<open>
  The \<open>finally\<close> block of \<open>play\<close> when \<open>get_data\<close> raised \<open>e\<close>: reset the device,
  unprepare the current header, and let \<open>e\<close> go on. An exception raised inside the
  block goes on in its place (Python keeps \<open>e\<close> as its context only).
\<close>

definition play_finally ::
  "env \<Rightarrow> hdr \<Rightarrow> WAVEHDR \<Rightarrow> exn \<Rightarrow> event list \<Rightarrow> (exn + unit) \<times> event list" where
  "play_finally env phdr w e tr =
    (let (r, tr1) = dev env waveOutReset tr
     in (case check_mmr_out env r ''reset audio device'' of
           Inl e' \<Rightarrow> (Inl e', tr1)
         | Inr _ \<Rightarrow>
             (case hdr_out_unprepare env phdr w tr1 of
                (Inl e', tr2) \<Rightarrow> (Inl e', tr2)
              | (Inr _, tr2) \<Rightarrow> (Inl e, tr2))))"

text \<open>
  The \<open>if data\<close> statement of the loop body: a non-empty chunk is put into the next
  header and submitted, anything else sets \<open>exit\<close>. The result is what the submission
  did, the headers and the new value of \<open>exit\<close>.
\<close>

definition play_submit_next ::
  "env \<Rightarrow> hdr \<Rightarrow> (hdr \<Rightarrow> WAVEHDR) \<Rightarrow> pybuffer option \<Rightarrow> event list
    \<Rightarrow> ((exn + unit) \<times> event list) \<times> (hdr \<Rightarrow> WAVEHDR) \<times> bool" where
  "play_submit_next env pnext_hdr hdrs data tr =
    (case data of
       None \<Rightarrow> ((Inr (), tr), hdrs, True)
     | Some b \<Rightarrow>
         if len b = 0 then ((Inr (), tr), hdrs, True)
         else
           let hdrs' = hdrs(pnext_hdr := \<lparr>lpData = data, dwBufferLength = int (len b)\<rparr>)
           in (hdr_out_prepare_write env pnext_hdr (hdrs' pnext_hdr) tr, hdrs', False))"

text \<open>
  The \<open>while not exit\<close> loop. Its body first swaps the two pointers. The variables
  \<open>data\<close> and \<open>data2\<close> only keep the two chunks alive while the device reads them; the
  chunk a header points to is its \<open>lpData\<close>.
\<close>

partial_function (option) play_loop ::
  "env \<Rightarrow> (nat \<Rightarrow> pybuffer option cb) \<Rightarrow> hdr \<Rightarrow> hdr \<Rightarrow> (hdr \<Rightarrow> WAVEHDR) \<Rightarrow> bool \<Rightarrow> event list
    \<Rightarrow> ((exn + unit) \<times> event list) option" where
  "play_loop env get_data phdr pnext_hdr hdrs exit tr =
    (if exit then Some (Inr (), tr)
     else
       let (phdr, pnext_hdr) = (pnext_hdr, phdr)
       in case call_get_data get_data tr of
            (Raise e, tr1) \<Rightarrow> Some (play_finally env phdr (hdrs phdr) e tr1)
          | (Return data, tr1) \<Rightarrow>
              (case play_submit_next env pnext_hdr hdrs data tr1 of
                 ((Inl e, tr2), hdrs', exit') \<Rightarrow> Some (Inl e, tr2)
               | ((Inr _, tr2), hdrs', exit') \<Rightarrow>
                   Option.bind (wait_loop env phdr tr2) (\<lambda>tr3.
                     case hdr_out_unprepare env phdr (hdrs' phdr) tr3 of
                       (Inl e, tr4) \<Rightarrow> Some (Inl e, tr4)
                     | (Inr _, tr4) \<Rightarrow>
                         play_loop env get_data phdr pnext_hdr hdrs' exit' tr4)))"

declare play_loop.simps [code]

definition PlaybackDevice_play ::
  "env \<Rightarrow> (nat \<Rightarrow> pybuffer option cb) \<Rightarrow> event list \<Rightarrow> ((exn + unit) \<times> event list) option" where
  "PlaybackDevice_play env get_data tr =
    (case call_get_data get_data tr of
       (Raise e, tr1) \<Rightarrow> Some (Inl e, tr1)
     | (Return None, tr1) \<Rightarrow> Some (Inr (), tr1)
     | (Return (Some b), tr1) \<Rightarrow>
         (if len b = 0 then Some (Inr (), tr1)
          else
            (let phdr = hdr1; pnext_hdr = hdr2;
                 hdrs = (\<lambda>_. ZeroMemory)
                   (pnext_hdr := \<lparr>lpData = Some b, dwBufferLength = int (len b)\<rparr>)
             in (case hdr_out_prepare_write env pnext_hdr (hdrs pnext_hdr) tr1 of
                   (Inl e, tr2) \<Rightarrow> Some (Inl e, tr2)
                 | (Inr _, tr2) \<Rightarrow> play_loop env get_data phdr pnext_hdr hdrs False tr2))))"

subsection \<open>\<open>RecordingDevice.record\<close>\<close>

text \<open>
  \<open>bytearray(n)\<close> for a count \<open>n\<close> that is not negative; the first argument here is the
  identity of the new object. In \<open>record\<close> the count is
  \<open>self._c_fmt.nBlockAlign * samples\<close>, the product of a \<open>WORD\<close> and a C \<open>int\<close>: it reaches
  \<open>bytearray\<close> as a \<open>WORD\<close>, reduced to 16 bits, and is never negative.
\<close>

definition bytearray :: "nat \<Rightarrow> nat \<Rightarrow> pybuffer" where
  "bytearray i n = ByteArray i n"

text \<open>
  The inner \<open>finally\<close> block of \<open>record\<close>, entered with what \<open>on_chunk\<close> did: the current
  header is unprepared on both paths; when the callback raised, the device is reset and
  the next header unprepared too, and the callback's exception goes on.
\<close>

definition record_finally ::
  "env \<Rightarrow> hdr \<Rightarrow> hdr \<Rightarrow> (hdr \<Rightarrow> WAVEHDR) \<Rightarrow> bool cb \<Rightarrow> event list \<Rightarrow> (exn + bool) \<times> event list" where
  "record_finally env phdr pnext_hdr hdrs res tr =
    (case hdr_in_unprepare env phdr (hdrs phdr) tr of
       (Inl e', tr1) \<Rightarrow> (Inl e', tr1)
     | (Inr _, tr1) \<Rightarrow>
         (case res of
            Return another \<Rightarrow> (Inr another, tr1)
          | Raise e \<Rightarrow>
              (let (r, tr2) = dev env waveInReset tr1
               in (case check_mmr_in env r ''reset audio device'' of
                     Inl e' \<Rightarrow> (Inl e', tr2)
                   | Inr _ \<Rightarrow>
                       (case hdr_in_unprepare env pnext_hdr (hdrs pnext_hdr) tr2 of
                          (Inl e', tr3) \<Rightarrow> (Inl e', tr3)
                        | (Inr _, tr3) \<Rightarrow> (Inl e, tr3))))))"

text \<open>
  The \<open>while another\<close> loop. The last two statements of its body swap the pointers and
  the two bytearrays, so the next iteration runs with the arguments exchanged.
\<close>

partial_function (option) record_loop ::
  "env \<Rightarrow> (nat \<Rightarrow> pybuffer \<Rightarrow> bool cb) \<Rightarrow> hdr \<Rightarrow> hdr \<Rightarrow> (hdr \<Rightarrow> WAVEHDR) \<Rightarrow> pybuffer \<Rightarrow> pybuffer
    \<Rightarrow> bool \<Rightarrow> event list \<Rightarrow> ((exn + unit) \<times> event list) option" where
  "record_loop env on_chunk phdr pnext_hdr hdrs data1 data2 another tr =
    (if \<not> another then Some (Inr (), tr)
     else
       (case hdr_in_prepare_add env pnext_hdr (hdrs pnext_hdr) tr of
          (Inl e, tr1) \<Rightarrow> Some (Inl e, tr1)
        | (Inr _, tr1) \<Rightarrow>
            Option.bind (wait_loop env phdr tr1) (\<lambda>tr2.
              let (res, tr3) = call_on_chunk on_chunk data1 tr2
              in (case record_finally env phdr pnext_hdr hdrs res tr3 of
                    (Inl e, tr4) \<Rightarrow> Some (Inl e, tr4)
                  | (Inr another', tr4) \<Rightarrow>
                      record_loop env on_chunk pnext_hdr phdr hdrs data2 data1 another' tr4))))"

declare record_loop.simps [code]

text \<open>The outer \<open>finally\<close> block: stop the device, whatever the loop did.\<close>

definition record_stop ::
  "env \<Rightarrow> (exn + unit) \<Rightarrow> event list \<Rightarrow> (exn + unit) \<times> event list" where
  "record_stop env res tr =
    (let (r, tr1) = dev env waveInStop tr
     in case check_mmr_in env r ''stop recording'' of
          Inl e \<Rightarrow> (Inl e, tr1)
        | Inr _ \<Rightarrow> (res, tr1))"

definition RecordingDevice_record ::
  "env \<Rightarrow> device \<Rightarrow> int \<Rightarrow> (nat \<Rightarrow> pybuffer \<Rightarrow> bool cb) \<Rightarrow> event list
    \<Rightarrow> ((exn + unit) \<times> event list) option" where
  "RecordingDevice_record env self samples on_chunk tr =
    (if \<not> c_int_range samples then Some (Inl OverflowError, tr)
     else
       let phdr = hdr1; pnext_hdr = hdr2;
           data1 = bytearray 0 (nat (to_WORD (c_int (nBlockAlign (c_fmt self) * samples))));
           data2 = bytearray 1 (nat (to_WORD (c_int (nBlockAlign (c_fmt self) * samples))));
           hdrs = (\<lambda>_. ZeroMemory)
             (phdr := \<lparr>lpData = Some data1, dwBufferLength = int (len data1)\<rparr>,
              pnext_hdr := \<lparr>lpData = Some data2, dwBufferLength = int (len data2)\<rparr>)
       in (case hdr_in_prepare_add env phdr (hdrs phdr) tr of
             (Inl e, tr1) \<Rightarrow> Some (Inl e, tr1)
           | (Inr _, tr1) \<Rightarrow>
               (let (r, tr2) = dev env waveInStart tr1
                in (case check_mmr_in env r ''start recording'' of
                      Inl e \<Rightarrow> Some (Inl e, tr2)
                    | Inr _ \<Rightarrow>
                        map_option (\<lambda>(res, tr3). record_stop env res tr3)
                          (record_loop env on_chunk phdr pnext_hdr hdrs
                             data1 data2 True tr2)))))"

subsection \<open>Reading a trace\<close>

text \<open>
  A header is outstanding from the call that enqueues it with success (\<open>waveOutWrite\<close>,
  \<open>waveInAddBuffer\<close>) to the call that unprepares it with success. \<open>outstanding\<close> lists
  the outstanding headers of a trace, oldest first.
\<close>

fun submits :: "event \<Rightarrow> (hdr \<times> WAVEHDR) list" where
  "submits (Call (waveOutWrite h w) r) = (if r = MMSYSERR_NOERROR then [(h, w)] else [])"
| "submits (Call (waveInAddBuffer h w) r) = (if r = MMSYSERR_NOERROR then [(h, w)] else [])"
| "submits _ = []"

fun unprepares :: "event \<Rightarrow> (hdr \<times> WAVEHDR) list" where
  "unprepares (Call (waveOutUnprepareHeader h w) r) = (if r = MMSYSERR_NOERROR then [(h, w)] else [])"
| "unprepares (Call (waveInUnprepareHeader h w) r) = (if r = MMSYSERR_NOERROR then [(h, w)] else [])"
| "unprepares _ = []"

definition submitted :: "event list \<Rightarrow> (hdr \<times> WAVEHDR) list" where
  "submitted tr = concat (map submits tr)"

definition unprepared :: "event list \<Rightarrow> (hdr \<times> WAVEHDR) list" where
  "unprepared tr = concat (map unprepares tr)"

definition track :: "hdr list \<Rightarrow> event \<Rightarrow> hdr list" where
  "track q e = foldl (\<lambda>q h. remove1 h q) (q @ map fst (submits e)) (map fst (unprepares e))"

definition outstanding :: "event list \<Rightarrow> hdr list" where
  "outstanding tr = foldl track [] tr"

fun resets :: "event \<Rightarrow> bool" where
  "resets (Call waveOutReset r) = (r = MMSYSERR_NOERROR)"
| "resets (Call waveInReset r) = (r = MMSYSERR_NOERROR)"
| "resets _ = False"

fun chunk :: "event \<Rightarrow> pybuffer list" where
  "chunk (OnChunk b res) = [b]"
| "chunk _ = []"

text \<open>The buffers handed to \<open>on_chunk\<close>, in the order of the invocations.\<close>

definition chunks :: "event list \<Rightarrow> pybuffer list" where
  "chunks tr = concat (map chunk tr)"

text \<open>\<open>wait_for h e\<close>: the event is a wait for header \<open>h\<close>.\<close>

fun wait_for :: "hdr \<Rightarrow> event \<Rightarrow> bool" where
  "wait_for h (Wait h' r f) = (h' = h)"
| "wait_for h _ = False"

fun other :: "hdr \<Rightarrow> hdr" where
  "other hdr1 = hdr2"
| "other hdr2 = hdr1"

text \<open>
  A monitor for the headers in flight: \<open>slots_ok q es\<close> runs over the events \<open>es\<close>,
  starting with the outstanding headers \<open>q\<close>, and checks that after every event at most
  two headers are outstanding and that at every wait for a header \<open>h\<close> the outstanding
  headers are \<open>h\<close>, the oldest, and the other header, queued behind it.
\<close>

fun wait_ok :: "hdr list \<Rightarrow> event \<Rightarrow> bool" where
  "wait_ok q (Wait h r f) = (q = [h, other h])"
| "wait_ok q _ = True"

fun slots_ok :: "hdr list \<Rightarrow> event list \<Rightarrow> bool" where
  "slots_ok q [] = True"
| "slots_ok q (e # es) = (length (track q e) \<le> 2 \<and> wait_ok q e \<and> slots_ok (track q e) es)"

text \<open>
  The regions that change hands: \<open>Inl b\<close> when region \<open>b\<close> is given to the device to be
  filled (a successful \<open>waveInAddBuffer\<close> of a header that points to it), \<open>Inr b\<close> when it
  is given to the consumer.
\<close>

fun handoff :: "event \<Rightarrow> (pybuffer + pybuffer) list" where
  "handoff (Call (waveInAddBuffer h w) r) =
     (if r = MMSYSERR_NOERROR then (case lpData w of Some b \<Rightarrow> [Inl b] | None \<Rightarrow> []) else [])"
| "handoff (OnChunk b res) = [Inr b]"
| "handoff _ = []"

definition handoffs :: "event list \<Rightarrow> (pybuffer + pybuffer) list" where
  "handoffs tr = concat (map handoff tr)"

definition alternate :: "'a \<Rightarrow> 'a \<Rightarrow> nat \<Rightarrow> 'a" where
  "alternate a b i = (if even i then a else b)"

subsection \<open>Assumptions on the environment\<close>

text \<open>Every subsystem call succeeds.\<close>

definition device_ok :: "env \<Rightarrow> bool" where
  "device_ok env = (\<forall>t c. mmresult env t c = MMSYSERR_NOERROR)"

text \<open>
  From every moment on, a wait for any header comes to an end: some later wait does not
  return 0 or finds bit 0 of the header's flags set.
\<close>

definition waits_end :: "env \<Rightarrow> bool" where
  "waits_end env = (\<forall>t h. \<exists>n. WaitForSingleObject env (t + n) \<noteq> 0 \<or> dwFlags env (t + n) h AND 1 = 1)"

subsection \<open>Concrete environments and callbacks\<close>

text \<open>
  A device on which every call succeeds, every wait returns 0 with the header done, and
  the error text lookup succeeds.
\<close>

definition ideal_env :: env where
  "ideal_env =
    \<lparr>mmresult = (\<lambda>t c. 0),
     WaitForSingleObject = (\<lambda>t. 0),
     dwFlags = (\<lambda>t h. 1),
     waveInGetErrorTextW = (\<lambda>r. (0, ''device text'')),
     waveOutGetErrorTextW = (\<lambda>r. (0, ''device text'')),
     legacy_implicit_noexcept = True\<rparr>"

text \<open>A device whose waits time out (result 258, \<open>WAIT_TIMEOUT\<close>) and which never sets
  the done bit of a header.\<close>

definition timeout_env :: env where
  "timeout_env = ideal_env\<lparr>WaitForSingleObject := (\<lambda>t. 258), dwFlags := (\<lambda>t h. 0)\<rparr>"

text \<open>A device whose event is signaled from the start, while the done bit of a header is
  set only from moment 2 on.\<close>

definition late_env :: env where
  "late_env = ideal_env\<lparr>dwFlags := (\<lambda>t h. if t < 2 then 0 else 1)\<rparr>"

text \<open>A producer of one chunk of two bytes.\<close>

definition one_chunk :: "nat \<Rightarrow> pybuffer option cb" where
  "one_chunk i = (if i = 0 then Return (Some (Bytes [0, 0])) else Return None)"

text \<open>A producer of two chunks.\<close>

definition two_chunks :: "nat \<Rightarrow> pybuffer option cb" where
  "two_chunks i = (if i < 2 then Return (Some (Bytes [1, 2, 3, 4])) else Return None)"

text \<open>A producer that raises on its first invocation, and one that raises on its second.\<close>

definition broken_producer :: "nat \<Rightarrow> pybuffer option cb" where
  "broken_producer i = Raise (UserError ''boom'')"

definition flaky_producer :: "nat \<Rightarrow> pybuffer option cb" where
  "flaky_producer i = (if i = 0 then Return (Some (Bytes [0, 0])) else Raise (UserError ''boom''))"

text \<open>
  Consumers: one that asks for a second chunk and then stops, one that stops at once, and
  one that raises on its second invocation.
\<close>

definition take_two :: "nat \<Rightarrow> pybuffer \<Rightarrow> bool cb" where
  "take_two i b = Return (i < 1)"

definition take_three :: "nat \<Rightarrow> pybuffer \<Rightarrow> bool cb" where
  "take_three i b = Return (i < 2)"

definition take_one :: "nat \<Rightarrow> pybuffer \<Rightarrow> bool cb" where
  "take_one i b = Return False"

definition flaky_consumer :: "nat \<Rightarrow> pybuffer \<Rightarrow> bool cb" where
  "flaky_consumer i b = (if i = 0 then Return True else Raise (UserError ''boom''))"

text \<open>A device that cannot start recording (\<open>waveInStart\<close> returns \<open>MMSYSERR_NOMEM\<close>).\<close>

definition no_start_env :: env where
  "no_start_env = ideal_env\<lparr>mmresult := (\<lambda>t c. if c = waveInStart then 7 else 0)\<rparr>"

definition stereo_16bit :: device where
  "stereo_16bit = \<lparr>c_evt = 0, c_fmt = make_fmt 2 44100 2\<rparr>"

section \<open>Properties\<close>

subsection \<open>Integer conversions\<close>

lemma c_int_id: "c_int_range x \<Longrightarrow> c_int x = x"
  by (simp add: c_int_def c_int_range_def)

lemma to_WORD_id: "0 \<le> x \<Longrightarrow> x < 2 ^ 16 \<Longrightarrow> to_WORD x = x"
  by (simp add: to_WORD_def)

lemma to_DWORD_id: "0 \<le> x \<Longrightarrow> x < 2 ^ 32 \<Longrightarrow> to_DWORD x = x"
  by (simp add: to_DWORD_def)

lemma to_WORD_c_int: "to_WORD (c_int x) = x mod 2 ^ 16"
proof -
  have "(x + 2 ^ 31) mod 2 ^ 32 mod 2 ^ 16 = (x + 2 ^ 31) mod (2 ^ 16 :: int)"
    by (rule mod_mod_cancel) simp
  then have "((x + 2 ^ 31) mod 2 ^ 32 - 2 ^ 31) mod 2 ^ 16 = (x + 2 ^ 31 - 2 ^ 31) mod (2 ^ 16 :: int)"
    by (metis mod_diff_left_eq)
  then show ?thesis
    by (simp add: to_WORD_def c_int_def)
qed

subsection \<open>The error translator\<close>

lemma check_mmresult_NOERROR [simp]:
  "check_mmresult env MMSYSERR_NOERROR cause for_in = Inr 0"
  by (simp add: check_mmresult_def)

lemma check_mmr_in_NOERROR [simp]: "check_mmr_in env MMSYSERR_NOERROR cause = Inr 0"
  by (simp add: check_mmr_in_def)

lemma check_mmr_out_NOERROR [simp]: "check_mmr_out env MMSYSERR_NOERROR cause = Inr 0"
  by (simp add: check_mmr_out_def)

lemma check_mmresult_raises:
  "r \<noteq> MMSYSERR_NOERROR \<Longrightarrow> \<exists>e. check_mmresult env r cause for_in = Inl e"
  by (auto simp: check_mmresult_def split: prod.splits sum.splits)

lemma check_mmresult_text:
  "r \<noteq> MMSYSERR_NOERROR \<Longrightarrow> fst (get_error_text env for_in r) = 0 \<Longrightarrow>
   check_mmresult env r cause for_in
     = Inl (OSError (failed_to cause (snd (get_error_text env for_in r)) r))"
  by (simp add: check_mmresult_def case_prod_beta)

text \<open>
  When the error text lookup fails, the name taken from the table cannot be assigned to
  the array \<open>msg\<close>: no name of the table has 256 characters, and \<open>UNKNOWN_ERROR\<close> has not
  either. The translator then raises \<open>IndexError\<close> in place of the \<open>OSError\<close> it was
  about to build.
\<close>

lemma table_name_length: "length (dict_get ERROR_CODES r ''UNKNOWN_ERROR'') < 256"
  by (simp add: dict_get_def ERROR_CODES_def)

lemma check_mmresult_lookup_fails:
  "r \<noteq> MMSYSERR_NOERROR \<Longrightarrow> fst (get_error_text env for_in r) \<noteq> 0 \<Longrightarrow>
   check_mmresult env r cause for_in = Inl IndexError"
  using table_name_length [of r]
  by (simp add: check_mmresult_def case_prod_beta carray_from_py_def)

lemma hex_nat_33: "hex_nat 33 = ''21''"
  by (simp add: hex_nat.simps hex_digit_def)

text \<open>
  C4, as stated, fails: for the known code \<open>WAVERR_STILLPLAYING\<close> (33, hexadecimal 21) on
  a device whose error text lookup succeeds, the name in the error is the device's text,
  not the name the table has for the code.
\<close>

theorem translator_prefers_device_text:
  "map_of ERROR_CODES WAVERR_STILLPLAYING = Some ''WAVERR_STILLPLAYING''
   \<and> check_mmresult ideal_env WAVERR_STILLPLAYING ''unprepare audio buffer'' True
       = Inl (OSError ''Failed to unprepare audio buffer: device text (0x21)'')"
  by (simp add: check_mmresult_def get_error_text_def ERROR_CODES_def ideal_env_def
      WAVERR_STILLPLAYING_def MMSYSERR_NOERROR_def failed_to_def format_x_def hex_nat_33)

text \<open>
  C4, amended: \<open>MMSYSERR_NOERROR\<close> raises nothing and returns 0. Any other code for which
  the device subsystem's error text lookup succeeds raises an \<open>OSError\<close> whose message
  carries the cause, the device's text as the name, and the code in hexadecimal; this
  holds for the codes of the table too, whose names are not used then.
\<close>

theorem check_mmresult_translation:
  "check_mmresult env MMSYSERR_NOERROR cause for_in = Inr 0
   \<and> (r \<noteq> MMSYSERR_NOERROR \<and> fst (get_error_text env for_in r) = 0 \<longrightarrow>
        check_mmresult env r cause for_in
          = Inl (OSError (''Failed to '' @ cause @ '': '' @ snd (get_error_text env for_in r)
                            @ '' (0x'' @ format_x r @ '')'')))"
  by (simp add: check_mmresult_text failed_to_def)

theorem check_mmresult_translation_witness:
  "check_mmresult ideal_env MMSYSERR_NOERROR ''open audio device'' False = Inr 0
   \<and> check_mmresult ideal_env MMSYSERR_NOMEM ''open audio device'' False
     = Inl (OSError ''Failed to open audio device: device text (0x7)'')
   \<and> check_mmresult ideal_env 11 ''open audio device'' False
     = Inl (OSError ''Failed to open audio device: device text (0xb)'')"
proof -
  have x7: "format_x MMSYSERR_NOMEM = ''7''" and xb: "format_x 11 = ''b''"
    by (simp_all add: format_x_def MMSYSERR_NOMEM_def hex_nat.simps hex_digit_def)
  have ne: "MMSYSERR_NOMEM \<noteq> MMSYSERR_NOERROR" "11 \<noteq> MMSYSERR_NOERROR"
    by (simp_all add: MMSYSERR_NOMEM_def MMSYSERR_NOERROR_def)
  have t: "fst (get_error_text ideal_env False r) = 0"
    "snd (get_error_text ideal_env False r) = ''device text''" for r
    by (simp_all add: get_error_text_def ideal_env_def)
  show ?thesis
    using check_mmresult_translation [of ideal_env "''open audio device''" False MMSYSERR_NOMEM]
      check_mmresult_translation [of ideal_env "''open audio device''" False 11]
    by (simp add: x7 xb ne t)
qed

subsection \<open>Construction\<close>

lemma dev_ok:
  "device_ok env \<Longrightarrow> dev env c tr = (MMSYSERR_NOERROR, tr @ [Call c MMSYSERR_NOERROR])"
  by (simp add: dev_def device_ok_def)

lemma device_ok_ideal [simp]: "device_ok ideal_env"
  by (simp add: device_ok_def ideal_env_def MMSYSERR_NOERROR_def)

text \<open>
  C3, as stated, fails: the constructors do not look at the format. With a channel count
  of zero the device is opened all the same, and when it answers \<open>MMSYSERR_NOERROR\<close> the
  construction succeeds with the zero field.
\<close>

theorem cinit_accepts_zero_channels:
  "PlaybackDevice_cinit ideal_env 0 0 44100 2 []
     = (Inr \<lparr>c_evt = 0, c_fmt = make_fmt 0 44100 2\<rparr>,
        [Call CreateEventW 0, Call (waveOutOpen 0 (make_fmt 0 44100 2)) 0])
   \<and> nChannels (make_fmt 0 44100 2) = 0"
  by (simp add: PlaybackDevice_cinit_def dev_def ideal_env_def DWORD_range_def c_int_range_def
      check_mmr_out_def check_mmresult_def MMSYSERR_NOERROR_def make_fmt_def to_WORD_def Let_def)

text \<open>
  C3, amended: for all arguments in the range of their C types, zero included, a
  constructor creates the event and calls the device open with the format as given; it
  raises nothing before the device open. It succeeds exactly when the open call returns
  \<open>MMSYSERR_NOERROR\<close>, also with a zero field. When the open call returns another code
  the constructor raises: the \<open>OSError\<close> of ``open audio device'' with the device's text
  when the device supplies the text of the error.
\<close>

theorem cinit_no_validation:
  fixes env dev_id nchannels framerate sampwidth tr
  defines "fmt \<equiv> make_fmt nchannels framerate sampwidth"
  defines "evt \<equiv> mmresult env (length tr) CreateEventW"
  defines "r_out \<equiv> mmresult env (Suc (length tr)) (waveOutOpen dev_id fmt)"
  defines "r_in \<equiv> mmresult env (Suc (length tr)) (waveInOpen dev_id fmt)"
  defines "pb \<equiv> PlaybackDevice_cinit env dev_id nchannels framerate sampwidth tr"
  defines "rc \<equiv> RecordingDevice_cinit env dev_id nchannels framerate sampwidth tr"
  assumes "DWORD_range dev_id" "c_int_range nchannels" "c_int_range framerate" "c_int_range sampwidth"
  shows "snd pb = tr @ [Call CreateEventW evt, Call (waveOutOpen dev_id fmt) r_out]
       \<and> (r_out = MMSYSERR_NOERROR \<longrightarrow> fst pb = Inr \<lparr>c_evt = evt, c_fmt = fmt\<rparr>)
       \<and> (r_out \<noteq> MMSYSERR_NOERROR \<longrightarrow> (\<exists>e. fst pb = Inl e))
       \<and> (r_out \<noteq> MMSYSERR_NOERROR \<and> fst (waveOutGetErrorTextW env r_out) = 0 \<longrightarrow>
            fst pb = Inl (OSError (failed_to ''open audio device''
                                     (snd (waveOutGetErrorTextW env r_out)) r_out)))
       \<and> snd rc = tr @ [Call CreateEventW evt, Call (waveInOpen dev_id fmt) r_in]
       \<and> (r_in = MMSYSERR_NOERROR \<longrightarrow> fst rc = Inr \<lparr>c_evt = evt, c_fmt = fmt\<rparr>)
       \<and> (r_in \<noteq> MMSYSERR_NOERROR \<longrightarrow> (\<exists>e. fst rc = Inl e))
       \<and> (r_in \<noteq> MMSYSERR_NOERROR \<and> fst (waveInGetErrorTextW env r_in) = 0 \<longrightarrow>
            fst rc = Inl (OSError (failed_to ''open audio device''
                                     (snd (waveInGetErrorTextW env r_in)) r_in)))"
proof -
  have out: "fst pb = (case check_mmr_out env r_out ''open audio device'' of
                         Inl e \<Rightarrow> Inl e | Inr _ \<Rightarrow> Inr \<lparr>c_evt = evt, c_fmt = fmt\<rparr>)"
    and out_tr: "snd pb = tr @ [Call CreateEventW evt, Call (waveOutOpen dev_id fmt) r_out]"
    using assms(7-)
    by (simp_all add: pb_def PlaybackDevice_cinit_def dev_def Let_def fmt_def evt_def r_out_def
        split: sum.splits)
  have inp: "fst rc = (case check_mmr_in env r_in ''open audio device'' of
                         Inl e \<Rightarrow> Inl e | Inr _ \<Rightarrow> Inr \<lparr>c_evt = evt, c_fmt = fmt\<rparr>)"
    and inp_tr: "snd rc = tr @ [Call CreateEventW evt, Call (waveInOpen dev_id fmt) r_in]"
    using assms(7-)
    by (simp_all add: rc_def RecordingDevice_cinit_def dev_def Let_def fmt_def evt_def r_in_def
        split: sum.splits)
  have 1: "r_out = MMSYSERR_NOERROR \<longrightarrow> fst pb = Inr \<lparr>c_evt = evt, c_fmt = fmt\<rparr>"
    unfolding out by simp
  have 2: "r_out \<noteq> MMSYSERR_NOERROR \<longrightarrow> (\<exists>e. fst pb = Inl e)"
    using check_mmresult_raises [of r_out env "''open audio device''" False]
    unfolding out check_mmr_out_def by auto
  have 3: "r_out \<noteq> MMSYSERR_NOERROR \<and> fst (waveOutGetErrorTextW env r_out) = 0 \<longrightarrow>
            fst pb = Inl (OSError (failed_to ''open audio device''
                                     (snd (waveOutGetErrorTextW env r_out)) r_out))"
    using check_mmresult_text [of r_out env False "''open audio device''"]
    unfolding out check_mmr_out_def by (simp add: get_error_text_def)
  have 4: "r_in = MMSYSERR_NOERROR \<longrightarrow> fst rc = Inr \<lparr>c_evt = evt, c_fmt = fmt\<rparr>"
    unfolding inp by simp
  have 5: "r_in \<noteq> MMSYSERR_NOERROR \<longrightarrow> (\<exists>e. fst rc = Inl e)"
    using check_mmresult_raises [of r_in env "''open audio device''" True]
    unfolding inp check_mmr_in_def by auto
  have 6: "r_in \<noteq> MMSYSERR_NOERROR \<and> fst (waveInGetErrorTextW env r_in) = 0 \<longrightarrow>
            fst rc = Inl (OSError (failed_to ''open audio device''
                                     (snd (waveInGetErrorTextW env r_in)) r_in))"
    using check_mmresult_text [of r_in env True "''open audio device''"]
    unfolding inp check_mmr_in_def by (simp add: get_error_text_def)
  from 1 2 3 4 5 6 out_tr inp_tr show ?thesis by blast
qed

theorem cinit_no_validation_witness:
  "fst (RecordingDevice_cinit ideal_env 0 2 44100 0 [])
     = Inr \<lparr>c_evt = 0, c_fmt = make_fmt 2 44100 0\<rparr>
   \<and> snd (RecordingDevice_cinit ideal_env 0 2 44100 0 [])
     = [Call CreateEventW 0, Call (waveInOpen 0 (make_fmt 2 44100 0)) 0]"
  using cinit_no_validation [of 0 2 44100 0 ideal_env "[]"]
  by (simp add: DWORD_range_def c_int_range_def ideal_env_def MMSYSERR_NOERROR_def)

text \<open>
  C9, as stated, fails: a sample width of 256 bytes and 256 channels are accepted when the
  device answers \<open>MMSYSERR_NOERROR\<close>; their product 65536 does not fit the 16-bit field
  \<open>nBlockAlign\<close>, which holds 0, while \<open>nAvgBytesPerSec\<close> holds 65536, which is not
  \<open>nBlockAlign\<close> times the sample rate 1. With a sample width of 65536 and 65536
  channels the product does not fit 32 bits either, and both fields hold 0.
\<close>

theorem cinit_truncates_block_align:
  "PlaybackDevice_cinit ideal_env 0 256 1 256 []
     = (Inr \<lparr>c_evt = 0, c_fmt = make_fmt 256 1 256\<rparr>,
        [Call CreateEventW 0, Call (waveOutOpen 0 (make_fmt 256 1 256)) 0])
   \<and> nBlockAlign (make_fmt 256 1 256) = 0
   \<and> nAvgBytesPerSec (make_fmt 256 1 256) = 65536
   \<and> fst (PlaybackDevice_cinit ideal_env 0 65536 1 65536 [])
       = Inr \<lparr>c_evt = 0, c_fmt = make_fmt 65536 1 65536\<rparr>
   \<and> nBlockAlign (make_fmt 65536 1 65536) = 0
   \<and> nAvgBytesPerSec (make_fmt 65536 1 65536) = 0"
  by (simp add: PlaybackDevice_cinit_def dev_def ideal_env_def DWORD_range_def c_int_range_def
      check_mmr_out_def check_mmresult_def MMSYSERR_NOERROR_def make_fmt_def to_WORD_def
      to_DWORD_def c_int_def Let_def)

text \<open>
  C9, amended: for every format accepted at construction whose product of sample width and
  channels lies in \<open>[0, 2^16)\<close> and whose product of sample width, channels and sample rate
  lies in \<open>[0, 2^31)\<close>, \<open>nBlockAlign\<close> is exactly sample width times channels and
  \<open>nAvgBytesPerSec\<close> exactly \<open>nBlockAlign\<close> times the sample rate.
\<close>

theorem cinit_derived_fields:
  assumes "PlaybackDevice_cinit env dev_id nchannels framerate sampwidth tr = (Inr d, tr')
         \<or> RecordingDevice_cinit env dev_id nchannels framerate sampwidth tr = (Inr d, tr')"
    and "0 \<le> sampwidth * nchannels" "sampwidth * nchannels < 2 ^ 16"
    and "0 \<le> sampwidth * nchannels * framerate" "sampwidth * nchannels * framerate < 2 ^ 31"
  shows "nBlockAlign (c_fmt d) = sampwidth * nchannels
       \<and> nAvgBytesPerSec (c_fmt d) = nBlockAlign (c_fmt d) * framerate"
proof -
  have fmt: "c_fmt d = make_fmt nchannels framerate sampwidth"
    using assms(1)
    by (auto simp: PlaybackDevice_cinit_def RecordingDevice_cinit_def Let_def
        split: if_splits prod.splits sum.splits)
  have p: "c_int (sampwidth * nchannels) = sampwidth * nchannels"
    using assms(2,3) by (simp add: c_int_id c_int_range_def)
  have q: "c_int (sampwidth * nchannels * framerate) = sampwidth * nchannels * framerate"
    using assms(4,5) by (simp add: c_int_id c_int_range_def)
  have "nBlockAlign (c_fmt d) = sampwidth * nchannels"
    using assms(2,3) by (simp add: fmt make_fmt_def p to_WORD_id)
  moreover have "nAvgBytesPerSec (c_fmt d) = sampwidth * nchannels * framerate"
    using assms(4,5) by (simp add: fmt make_fmt_def p q to_DWORD_id)
  ultimately show ?thesis by simp
qed

theorem cinit_derived_fields_witness:
  "PlaybackDevice_cinit ideal_env 0 2 44100 2 [] = (Inr stereo_16bit, [Call CreateEventW 0, Call (waveOutOpen 0 (make_fmt 2 44100 2)) 0])
   \<and> nBlockAlign (c_fmt stereo_16bit) = 4
   \<and> nAvgBytesPerSec (c_fmt stereo_16bit) = 176400"
proof -
  have c: "PlaybackDevice_cinit ideal_env 0 2 44100 2 []
      = (Inr stereo_16bit, [Call CreateEventW 0, Call (waveOutOpen 0 (make_fmt 2 44100 2)) 0])"
    by (simp add: PlaybackDevice_cinit_def dev_def ideal_env_def DWORD_range_def c_int_range_def
        check_mmr_out_def check_mmresult_def MMSYSERR_NOERROR_def stereo_16bit_def Let_def)
  from cinit_derived_fields [OF disjI1 [OF c]] c show ?thesis by simp
qed

subsection \<open>The wait loop\<close>

lemma wait_loop_now:
  "WaitForSingleObject env (length tr) \<noteq> 0 \<or> dwFlags env (length tr) h AND 1 = 1 \<Longrightarrow>
   wait_loop env h tr
     = Some (tr @ [Wait h (WaitForSingleObject env (length tr)) (dwFlags env (length tr) h)])"
  by (subst wait_loop.simps) (simp add: Let_def)

lemma wait_loop_again:
  "WaitForSingleObject env (length tr) = 0 \<Longrightarrow> dwFlags env (length tr) h AND 1 \<noteq> 1 \<Longrightarrow>
   wait_loop env h tr = wait_loop env h (tr @ [Wait h 0 (dwFlags env (length tr) h)])"
  by (subst wait_loop.simps) (simp add: Let_def)

lemma waits_from_Suc:
  "waits_from env h t (Suc n)
     = Wait h (WaitForSingleObject env t) (dwFlags env t h) # waits_from env h (Suc t) n"
  by (simp add: waits_from_def map_upt_Suc del: upt_Suc)

lemma wait_loop_complete:
  "(\<forall>i<n. WaitForSingleObject env (length tr + i) = 0
          \<and> dwFlags env (length tr + i) h AND 1 \<noteq> 1) \<Longrightarrow>
   WaitForSingleObject env (length tr + n) \<noteq> 0 \<or> dwFlags env (length tr + n) h AND 1 = 1 \<Longrightarrow>
   wait_loop env h tr = Some (tr @ waits_from env h (length tr) (Suc n))"
proof (induction n arbitrary: tr)
  case 0
  then show ?case by (simp add: wait_loop_now waits_from_def)
next
  case (Suc n)
  from Suc.prems(1)
  have now: "WaitForSingleObject env (length tr) = 0" "dwFlags env (length tr) h AND 1 \<noteq> 1"
    by force+
  let ?tr = "tr @ [Wait h 0 (dwFlags env (length tr) h)]"
  have "wait_loop env h ?tr = Some (?tr @ waits_from env h (length ?tr) (Suc n))"
  proof (rule Suc.IH)
    show "\<forall>i<n. WaitForSingleObject env (length ?tr + i) = 0
            \<and> dwFlags env (length ?tr + i) h AND 1 \<noteq> 1"
      using Suc.prems(1) by (metis Suc_less_eq add_Suc_shift length_append_singleton)
    show "WaitForSingleObject env (length ?tr + n) \<noteq> 0
            \<or> dwFlags env (length ?tr + n) h AND 1 = 1"
      using Suc.prems(2) by simp
  qed
  then show ?case
    using now by (simp add: wait_loop_again waits_from_Suc [of env h "length tr"])
qed

lemma wait_loop_sound:
  assumes "wait_loop env h tr = Some tr'"
  shows "\<exists>n. (\<forall>i<n. WaitForSingleObject env (length tr + i) = 0
                   \<and> dwFlags env (length tr + i) h AND 1 \<noteq> 1)
           \<and> (WaitForSingleObject env (length tr + n) \<noteq> 0
                \<or> dwFlags env (length tr + n) h AND 1 = 1)
           \<and> tr' = tr @ waits_from env h (length tr) (Suc n)"
  using assms
proof (induction rule: wait_loop.raw_induct [rotated 1, consumes 1])
  case (1 wl env h tr tr')
  show ?case
  proof (cases "WaitForSingleObject env (length tr) \<noteq> 0 \<or> dwFlags env (length tr) h AND 1 = 1")
    case True
    with 1(2) have "tr' = tr @ waits_from env h (length tr) (Suc 0)"
      by (auto simp: Let_def waits_from_def)
    with True show ?thesis by (intro exI [of _ 0]) simp
  next
    case False
    let ?tr = "tr @ [Wait h 0 (dwFlags env (length tr) h)]"
    from False 1(2) have "wl env h ?tr = Some tr'"
      by (simp add: Let_def)
    from 1(1) [OF this] obtain n where
      n: "\<forall>i<n. WaitForSingleObject env (length ?tr + i) = 0
                \<and> dwFlags env (length ?tr + i) h AND 1 \<noteq> 1"
         "WaitForSingleObject env (length ?tr + n) \<noteq> 0
            \<or> dwFlags env (length ?tr + n) h AND 1 = 1"
         "tr' = ?tr @ waits_from env h (length ?tr) (Suc n)"
      by blast
    have "\<forall>i<Suc n. WaitForSingleObject env (length tr + i) = 0
            \<and> dwFlags env (length tr + i) h AND 1 \<noteq> 1"
    proof (intro allI impI)
      fix i assume "i < Suc n"
      show "WaitForSingleObject env (length tr + i) = 0
              \<and> dwFlags env (length tr + i) h AND 1 \<noteq> 1"
      proof (cases i)
        case 0 with False show ?thesis by simp
      next
        case (Suc k)
        with \<open>i < Suc n\<close> n(1) show ?thesis by force
      qed
    qed
    moreover have "WaitForSingleObject env (length tr + Suc n) \<noteq> 0
                     \<or> dwFlags env (length tr + Suc n) h AND 1 = 1"
      using n(2) by simp
    moreover have "tr' = tr @ waits_from env h (length tr) (Suc (Suc n))"
      using n(3) False by (simp add: waits_from_Suc [of env h "length tr"])
    ultimately show ?thesis by blast
  qed
qed

text \<open>
  C1, as stated, fails: a wait that times out ends the loop whatever the flag says. On a
  device whose waits time out and which never sets the done bit, \<open>play\<close> of one chunk
  leaves the wait loop after one wait and goes on to unprepare the header, with the
  completion flag of the current header unset (the flags in the \<open>Wait\<close> event are 0).
\<close>

theorem timeout_ends_the_wait:
  "wait_loop timeout_env hdr2 [] = Some [Wait hdr2 258 0]
   \<and> PlaybackDevice_play timeout_env one_chunk []
     = Some (Inr (),
         [GetData (Return (Some (Bytes [0, 0]))),
          Call (waveOutPrepareHeader hdr2 \<lparr>lpData = Some (Bytes [0, 0]), dwBufferLength = 2\<rparr>) 0,
          Call (waveOutWrite hdr2 \<lparr>lpData = Some (Bytes [0, 0]), dwBufferLength = 2\<rparr>) 0,
          GetData (Return None),
          Wait hdr2 258 0,
          Call (waveOutUnprepareHeader hdr2 \<lparr>lpData = Some (Bytes [0, 0]), dwBufferLength = 2\<rparr>) 0])"
  by code_simp

text \<open>
  C1, amended: the wait for the current header (the same loop in \<open>play\<close> and in
  \<open>record\<close>, run just before the header is unprepared) repeats a bounded event wait. A
  wait that returns 0 (signaled) while bit 0 of the current header's flags is unset is
  followed by another wait. The loop ends at the first wait that either does not return 0
  (a timeout or a failed wait) or finds the bit set, and at no other moment; so when the
  loop has ended, the bit is set or the last wait did not return 0. If no such wait ever
  comes the loop does not end.
\<close>

theorem wait_loop_exit:
  "wait_loop env h tr = Some tr' \<longleftrightarrow>
     (\<exists>n. (\<forall>i<n. WaitForSingleObject env (length tr + i) = 0
                  \<and> dwFlags env (length tr + i) h AND 1 \<noteq> 1)
          \<and> (WaitForSingleObject env (length tr + n) \<noteq> 0
               \<or> dwFlags env (length tr + n) h AND 1 = 1)
          \<and> tr' = tr @ waits_from env h (length tr) (Suc n))"
  using wait_loop_sound [of env h tr tr'] wait_loop_complete [of _ env tr h] by blast

theorem wait_loop_exit_witness:
  "wait_loop late_env hdr1 [] = Some [Wait hdr1 0 0, Wait hdr1 0 0, Wait hdr1 0 1]"
proof -
  have "\<exists>n. (\<forall>i<n. WaitForSingleObject late_env (length ([] :: event list) + i) = 0
                  \<and> dwFlags late_env (length ([] :: event list) + i) hdr1 AND 1 \<noteq> 1)
          \<and> (WaitForSingleObject late_env (length ([] :: event list) + n) \<noteq> 0
               \<or> dwFlags late_env (length ([] :: event list) + n) hdr1 AND 1 = 1)
          \<and> [Wait hdr1 0 0, Wait hdr1 0 0, Wait hdr1 0 1]
              = [] @ waits_from late_env hdr1 (length ([] :: event list)) (Suc n)"
    by (rule exI [of _ 2]) (simp add: late_env_def ideal_env_def waits_from_def upt_rec)
  then show ?thesis
    using wait_loop_exit [of late_env hdr1 "[]" "[Wait hdr1 0 0, Wait hdr1 0 0, Wait hdr1 0 1]"]
    by blast
qed

subsection \<open>Symbolic execution on a device that never fails\<close>

lemma hdr_in_prepare_add_ok:
  "device_ok env \<Longrightarrow> hdr_in_prepare_add env h w tr
     = (Inr (), tr @ [Call (waveInPrepareHeader h w) MMSYSERR_NOERROR,
                      Call (waveInAddBuffer h w) MMSYSERR_NOERROR])"
  by (simp add: hdr_in_prepare_add_def dev_ok)

lemma hdr_in_unprepare_ok:
  "device_ok env \<Longrightarrow> hdr_in_unprepare env h w tr
     = (Inr (), tr @ [Call (waveInUnprepareHeader h w) MMSYSERR_NOERROR])"
  by (simp add: hdr_in_unprepare_def dev_ok)

lemma hdr_out_prepare_write_ok:
  "device_ok env \<Longrightarrow> hdr_out_prepare_write env h w tr
     = (Inr (), tr @ [Call (waveOutPrepareHeader h w) MMSYSERR_NOERROR,
                      Call (waveOutWrite h w) MMSYSERR_NOERROR])"
  by (simp add: hdr_out_prepare_write_def dev_ok)

lemma hdr_out_unprepare_ok:
  "device_ok env \<Longrightarrow> hdr_out_unprepare env h w tr
     = (Inr (), tr @ [Call (waveOutUnprepareHeader h w) MMSYSERR_NOERROR])"
  by (simp add: hdr_out_unprepare_def dev_ok)

lemma play_finally_ok:
  "device_ok env \<Longrightarrow> play_finally env h w e tr
     = (Inl e, tr @ [Call waveOutReset MMSYSERR_NOERROR,
                     Call (waveOutUnprepareHeader h w) MMSYSERR_NOERROR])"
  by (simp add: play_finally_def dev_ok hdr_out_unprepare_ok)

lemma record_finally_ok:
  "device_ok env \<Longrightarrow> record_finally env ph pn hdrs res tr
     = (case res of
          Return a \<Rightarrow> (Inr a, tr @ [Call (waveInUnprepareHeader ph (hdrs ph)) MMSYSERR_NOERROR])
        | Raise e \<Rightarrow> (Inl e, tr @ [Call (waveInUnprepareHeader ph (hdrs ph)) MMSYSERR_NOERROR,
                                   Call waveInReset MMSYSERR_NOERROR,
                                   Call (waveInUnprepareHeader pn (hdrs pn)) MMSYSERR_NOERROR]))"
  by (simp add: record_finally_def dev_ok hdr_in_unprepare_ok split: cb.splits)

lemma record_stop_ok:
  "device_ok env \<Longrightarrow> record_stop env res tr = (res, tr @ [Call waveInStop MMSYSERR_NOERROR])"
  by (simp add: record_stop_def dev_ok)

lemma call_get_data_eq:
  "call_get_data get_data tr
     = (get_data (invocations tr), tr @ [GetData (get_data (invocations tr))])"
  by (simp add: call_get_data_def Let_def)

lemma call_on_chunk_eq:
  "call_on_chunk on_chunk data tr
     = (on_chunk (invocations tr) data, tr @ [OnChunk data (on_chunk (invocations tr) data)])"
  by (simp add: call_on_chunk_def Let_def)

lemma waits_from_wait_for: "list_all (wait_for h) (waits_from env h t n)"
  by (simp add: waits_from_def list_all_iff)

lemma wait_loop_SomeD:
  "wait_loop env h tr = Some tr' \<Longrightarrow> \<exists>ws. tr' = tr @ ws \<and> list_all (wait_for h) ws"
  using wait_loop_sound [of env h tr tr'] waits_from_wait_for by blast

text \<open>
  Partial correctness of the main loop of \<open>play\<close> on a device that never fails: a run that
  returns is made of iterations that submit the next chunk, wait and unprepare, ended
  by an iteration in which the producer returns nothing or raises.
\<close>

lemma play_loop_induct [consumes 2, case_names Raise Stop Continue]:
  assumes run: "play_loop env get_data ph pn hdrs False tr = Some (res, tr')"
    and ok: "device_ok env"
    and Raise: "\<And>ph pn hdrs tr e. get_data (invocations tr) = Raise e \<Longrightarrow>
        P ph pn hdrs tr (Inl e)
          (tr @ [GetData (Raise e), Call waveOutReset MMSYSERR_NOERROR,
                 Call (waveOutUnprepareHeader pn (hdrs pn)) MMSYSERR_NOERROR])"
    and Stop: "\<And>ph pn hdrs tr d ws.
        get_data (invocations tr) = Return d \<Longrightarrow>
        d = None \<or> (\<exists>b. d = Some b \<and> len b = 0) \<Longrightarrow>
        list_all (wait_for pn) ws \<Longrightarrow>
        P ph pn hdrs tr (Inr ())
          (tr @ GetData (Return d) # ws @
                [Call (waveOutUnprepareHeader pn (hdrs pn)) MMSYSERR_NOERROR])"
    and Continue: "\<And>ph pn hdrs tr b w ws res tr'.
        get_data (invocations tr) = Return (Some b) \<Longrightarrow> len b \<noteq> 0 \<Longrightarrow>
        w = \<lparr>lpData = Some b, dwBufferLength = int (len b)\<rparr> \<Longrightarrow>
        list_all (wait_for pn) ws \<Longrightarrow>
        P pn ph (hdrs(ph := w))
          (tr @ [GetData (Return (Some b)), Call (waveOutPrepareHeader ph w) MMSYSERR_NOERROR,
                 Call (waveOutWrite ph w) MMSYSERR_NOERROR] @ ws @
                [Call (waveOutUnprepareHeader pn ((hdrs(ph := w)) pn)) MMSYSERR_NOERROR])
          res tr' \<Longrightarrow>
        P ph pn hdrs tr res tr'"
  shows "P ph pn hdrs tr res tr'"
proof -
  have "play_loop env' gd ph pn hdrs ex tr = Some y \<Longrightarrow> env' = env \<Longrightarrow> gd = get_data \<Longrightarrow>
        (if ex then y = (Inr (), tr) else P ph pn hdrs tr (fst y) (snd y))" for env' gd ex y
  proof (induction rule: play_loop.raw_induct [rotated 1, consumes 1])
    case (1 pl env' gd ph pn hdrs ex tr y)
    note IH = 1(1) and body = 1(2) [unfolded \<open>env' = env\<close> \<open>gd = get_data\<close>]
    show ?case
    proof (cases ex)
      case True
      with body show ?thesis by auto
    next
      case False
      show ?thesis
      proof (cases "get_data (invocations tr)")
        case (Raise e)
        with False body ok
        have "y = (Inl e, tr @ [GetData (Raise e), Call waveOutReset MMSYSERR_NOERROR,
                 Call (waveOutUnprepareHeader pn (hdrs pn)) MMSYSERR_NOERROR])"
          by (simp add: call_get_data_eq play_submit_next_def Let_def play_finally_ok)
        with Raise False show ?thesis using assms(3) by simp
      next
        case (Return d)
        show ?thesis
        proof (cases "d = None \<or> (\<exists>b. d = Some b \<and> len b = 0)")
          case True
          let ?tr1 = "tr @ [GetData (Return d)]"
          let ?u = "Call (waveOutUnprepareHeader pn (hdrs pn)) MMSYSERR_NOERROR"
          from True Return False body ok
          have "Option.bind (wait_loop env pn ?tr1)
                  (\<lambda>tr3. pl env get_data pn ph hdrs True (tr3 @ [?u])) = Some y"
            by (auto simp: call_get_data_eq play_submit_next_def Let_def hdr_out_unprepare_ok)
          then obtain tr3 where w: "wait_loop env pn ?tr1 = Some tr3"
            and r: "pl env get_data pn ph hdrs True (tr3 @ [?u]) = Some y"
            by (auto simp: bind_eq_Some_conv)
          from wait_loop_SomeD [OF w] obtain ws
            where ws: "tr3 = ?tr1 @ ws" "list_all (wait_for pn) ws"
            by blast
          from IH [OF r refl refl] have "y = (Inr (), tr3 @ [?u])"
            by simp
          then have "y = (Inr (), tr @ GetData (Return d) # ws @ [?u])"
            unfolding ws(1) by simp
          with Stop [OF Return True ws(2)] False show ?thesis by simp
        next
          case nonempty: False
          then obtain b where b: "d = Some b" "len b \<noteq> 0" by (cases d) auto
          define w where "w = \<lparr>lpData = Some b, dwBufferLength = int (len b)\<rparr>"
          let ?tr2 = "tr @ [GetData (Return (Some b)),
                            Call (waveOutPrepareHeader ph w) MMSYSERR_NOERROR,
                            Call (waveOutWrite ph w) MMSYSERR_NOERROR]"
          let ?u = "Call (waveOutUnprepareHeader pn ((hdrs(ph := w)) pn)) MMSYSERR_NOERROR"
          from b Return False body ok
          have "Option.bind (wait_loop env pn ?tr2)
                  (\<lambda>tr3. pl env get_data pn ph (hdrs(ph := w)) False (tr3 @ [?u])) = Some y"
            by (simp add: call_get_data_eq play_submit_next_def hdr_out_unprepare_ok hdr_out_prepare_write_ok
                w_def)
          then obtain tr3 where wl: "wait_loop env pn ?tr2 = Some tr3"
            and r: "pl env get_data pn ph (hdrs(ph := w)) False (tr3 @ [?u]) = Some y"
            by (auto simp: bind_eq_Some_conv)
          from wait_loop_SomeD [OF wl] obtain ws
            where ws: "tr3 = ?tr2 @ ws" "list_all (wait_for pn) ws"
            by blast
          from IH [OF r refl refl]
          have "P pn ph (hdrs(ph := w)) (tr3 @ [?u]) (fst y) (snd y)"
            by simp
          then have "P pn ph (hdrs(ph := w))
              (tr @ [GetData (Return (Some b)), Call (waveOutPrepareHeader ph w) MMSYSERR_NOERROR,
                     Call (waveOutWrite ph w) MMSYSERR_NOERROR] @ ws @ [?u]) (fst y) (snd y)"
            unfolding ws(1) by (simp only: append_assoc)
          from Continue [OF Return [unfolded b(1)] b(2) w_def ws(2) this] False
          show ?thesis by simp
        qed
      qed
    qed
  qed
  from this [OF run] show ?thesis by simp
qed

lemma invocations_append [simp]: "invocations (tr @ es) = invocations tr + invocations es"
  by (simp add: invocations_def)

lemma invocations_Nil [simp]: "invocations [] = 0"
  by (simp add: invocations_def)

lemma invocations_Cons [simp]:
  "invocations (e # es) = (if is_invocation e then Suc (invocations es) else invocations es)"
  by (simp add: invocations_def)

lemma invocations_waits [simp]: "list_all (wait_for h) ws \<Longrightarrow> invocations ws = 0"
proof (induction ws)
  case Nil
  then show ?case by simp
next
  case (Cons e ws)
  then show ?case by (cases e) simp_all
qed

text \<open>The same for the main loop of \<open>record\<close>.\<close>

lemma record_loop_induct [consumes 2, case_names Raise Stop Continue]:
  assumes run: "record_loop env on_chunk ph pn hdrs d1 d2 True tr = Some (res, tr')"
    and ok: "device_ok env"
    and Raise: "\<And>ph pn d1 d2 tr ws e.
        list_all (wait_for ph) ws \<Longrightarrow> on_chunk (invocations tr) d1 = Raise e \<Longrightarrow>
        P ph pn d1 d2 tr (Inl e)
          (tr @ [Call (waveInPrepareHeader pn (hdrs pn)) MMSYSERR_NOERROR,
                 Call (waveInAddBuffer pn (hdrs pn)) MMSYSERR_NOERROR] @ ws @
                [OnChunk d1 (Raise e),
                 Call (waveInUnprepareHeader ph (hdrs ph)) MMSYSERR_NOERROR,
                 Call waveInReset MMSYSERR_NOERROR,
                 Call (waveInUnprepareHeader pn (hdrs pn)) MMSYSERR_NOERROR])"
    and Stop: "\<And>ph pn d1 d2 tr ws.
        list_all (wait_for ph) ws \<Longrightarrow> on_chunk (invocations tr) d1 = Return False \<Longrightarrow>
        P ph pn d1 d2 tr (Inr ())
          (tr @ [Call (waveInPrepareHeader pn (hdrs pn)) MMSYSERR_NOERROR,
                 Call (waveInAddBuffer pn (hdrs pn)) MMSYSERR_NOERROR] @ ws @
                [OnChunk d1 (Return False),
                 Call (waveInUnprepareHeader ph (hdrs ph)) MMSYSERR_NOERROR])"
    and Continue: "\<And>ph pn d1 d2 tr ws res tr'.
        list_all (wait_for ph) ws \<Longrightarrow> on_chunk (invocations tr) d1 = Return True \<Longrightarrow>
        P pn ph d2 d1
          (tr @ [Call (waveInPrepareHeader pn (hdrs pn)) MMSYSERR_NOERROR,
                 Call (waveInAddBuffer pn (hdrs pn)) MMSYSERR_NOERROR] @ ws @
                [OnChunk d1 (Return True),
                 Call (waveInUnprepareHeader ph (hdrs ph)) MMSYSERR_NOERROR])
          res tr' \<Longrightarrow>
        P ph pn d1 d2 tr res tr'"
  shows "P ph pn d1 d2 tr res tr'"
proof -
  have "record_loop env' oc ph pn hdrs' d1 d2 an tr = Some y \<Longrightarrow>
        env' = env \<Longrightarrow> oc = on_chunk \<Longrightarrow> hdrs' = hdrs \<Longrightarrow>
        (if an then P ph pn d1 d2 tr (fst y) (snd y) else y = (Inr (), tr))" for env' oc hdrs' an y
  proof (induction rule: record_loop.raw_induct [rotated 1, consumes 1])
    case (1 rl env' oc ph pn hdrs' d1 d2 an tr y)
    note IH = 1(1)
      and body = 1(2) [unfolded \<open>env' = env\<close> \<open>oc = on_chunk\<close> \<open>hdrs' = hdrs\<close>]
    show ?case
    proof (cases an)
      case False
      with body show ?thesis by auto
    next
      case True
      let ?tr1 = "tr @ [Call (waveInPrepareHeader pn (hdrs pn)) MMSYSERR_NOERROR,
                        Call (waveInAddBuffer pn (hdrs pn)) MMSYSERR_NOERROR]"
      let ?u = "Call (waveInUnprepareHeader ph (hdrs ph)) MMSYSERR_NOERROR"
      from True body ok
      have "Option.bind (wait_loop env ph ?tr1) (\<lambda>tr2.
              case record_finally env ph pn hdrs (on_chunk (invocations tr2) d1)
                     (tr2 @ [OnChunk d1 (on_chunk (invocations tr2) d1)]) of
                (Inl e, tr4) \<Rightarrow> Some (Inl e, tr4)
              | (Inr a, tr4) \<Rightarrow> rl env on_chunk pn ph hdrs d2 d1 a tr4) = Some y"
        by (simp add: hdr_in_prepare_add_ok call_on_chunk_eq)
      then obtain tr2 where wl: "wait_loop env ph ?tr1 = Some tr2"
        and r0: "(case record_finally env ph pn hdrs (on_chunk (invocations tr2) d1)
                     (tr2 @ [OnChunk d1 (on_chunk (invocations tr2) d1)]) of
                (Inl e, tr4) \<Rightarrow> Some (Inl e, tr4)
              | (Inr a, tr4) \<Rightarrow> rl env on_chunk pn ph hdrs d2 d1 a tr4) = Some y"
        by (auto simp: bind_eq_Some_conv)
      from r0 ok
      have r: "(case on_chunk (invocations tr2) d1 of
                Return a \<Rightarrow> rl env on_chunk pn ph hdrs d2 d1 a (tr2 @ [OnChunk d1 (Return a), ?u])
              | Raise e \<Rightarrow> Some (Inl e, tr2 @ [OnChunk d1 (Raise e), ?u,
                           Call waveInReset MMSYSERR_NOERROR,
                           Call (waveInUnprepareHeader pn (hdrs pn)) MMSYSERR_NOERROR])) = Some y"
        by (simp add: record_finally_ok split: cb.splits)
      from wait_loop_SomeD [OF wl] obtain ws
        where ws: "tr2 = ?tr1 @ ws" "list_all (wait_for ph) ws"
        by blast
      have inv: "invocations tr2 = invocations tr"
        using ws by simp
      show ?thesis
      proof (cases "on_chunk (invocations tr) d1")
        case (Raise e)
        with r inv have "y = (Inl e, tr2 @ [OnChunk d1 (Raise e), ?u,
                           Call waveInReset MMSYSERR_NOERROR,
                           Call (waveInUnprepareHeader pn (hdrs pn)) MMSYSERR_NOERROR])"
          by simp
        then have "y = (Inl e, tr @ [Call (waveInPrepareHeader pn (hdrs pn)) MMSYSERR_NOERROR,
                 Call (waveInAddBuffer pn (hdrs pn)) MMSYSERR_NOERROR] @ ws @
                [OnChunk d1 (Raise e), ?u, Call waveInReset MMSYSERR_NOERROR,
                 Call (waveInUnprepareHeader pn (hdrs pn)) MMSYSERR_NOERROR])"
          unfolding ws(1) by (simp only: append_assoc)
        with assms(3) [OF ws(2) Raise, of pn d2] True show ?thesis by simp
      next
        case (Return a)
        with r inv have rec: "rl env on_chunk pn ph hdrs d2 d1 a (tr2 @ [OnChunk d1 (Return a), ?u]) = Some y"
          by simp
        show ?thesis
        proof (cases a)
          case False
          from IH [OF rec refl refl refl] False
          have "y = (Inr (), tr2 @ [OnChunk d1 (Return False), ?u])"
            by simp
          then have "y = (Inr (), tr @ [Call (waveInPrepareHeader pn (hdrs pn)) MMSYSERR_NOERROR,
                 Call (waveInAddBuffer pn (hdrs pn)) MMSYSERR_NOERROR] @ ws @
                [OnChunk d1 (Return False), ?u])"
            unfolding ws(1) by (simp only: append_assoc)
          moreover from Return False have "on_chunk (invocations tr) d1 = Return False"
            by simp
          ultimately show ?thesis
            using Stop [OF ws(2), of tr d1 pn d2] True by simp
        next
          case a: True
          from IH [OF rec refl refl refl] a
          have "P pn ph d2 d1 (tr2 @ [OnChunk d1 (Return True), ?u]) (fst y) (snd y)"
            by simp
          then have "P pn ph d2 d1
            (tr @ [Call (waveInPrepareHeader pn (hdrs pn)) MMSYSERR_NOERROR,
                   Call (waveInAddBuffer pn (hdrs pn)) MMSYSERR_NOERROR] @ ws @
                  [OnChunk d1 (Return True), ?u]) (fst y) (snd y)"
            unfolding ws(1) by (simp only: append_assoc)
          moreover from Return a have "on_chunk (invocations tr) d1 = Return True"
            by simp
          ultimately show ?thesis
            using Continue [OF ws(2), of tr d1 pn d2 "fst y" "snd y"] True by simp
        qed
      qed
    qed
  qed
  from this [OF run] show ?thesis by simp
qed

subsection \<open>Lemmas on traces and on the main loop of play\<close>

lemma submitted_Nil [simp]: "submitted [] = []"
  by (simp add: submitted_def)

lemma submitted_Cons [simp]: "submitted (e # es) = submits e @ submitted es"
  by (simp add: submitted_def)

lemma submitted_append [simp]: "submitted (tr @ es) = submitted tr @ submitted es"
  by (simp add: submitted_def)

lemma unprepared_Nil [simp]: "unprepared [] = []"
  by (simp add: unprepared_def)

lemma unprepared_Cons [simp]: "unprepared (e # es) = unprepares e @ unprepared es"
  by (simp add: unprepared_def)

lemma unprepared_append [simp]: "unprepared (tr @ es) = unprepared tr @ unprepared es"
  by (simp add: unprepared_def)

lemma chunks_Nil [simp]: "chunks [] = []"
  by (simp add: chunks_def)

lemma chunks_Cons [simp]: "chunks (e # es) = chunk e @ chunks es"
  by (simp add: chunks_def)

lemma chunks_append [simp]: "chunks (tr @ es) = chunks tr @ chunks es"
  by (simp add: chunks_def)

lemma outstanding_Nil [simp]: "outstanding [] = []"
  by (simp add: outstanding_def)

lemma outstanding_append: "outstanding (tr @ es) = foldl track (outstanding tr) es"
  by (simp add: outstanding_def)

lemma track_submit [simp]:
  "track q (Call (waveOutWrite h w) MMSYSERR_NOERROR) = q @ [h]"
  "track q (Call (waveInAddBuffer h w) MMSYSERR_NOERROR) = q @ [h]"
  by (simp_all add: track_def)

lemma track_unprepare [simp]:
  "track q (Call (waveOutUnprepareHeader h w) MMSYSERR_NOERROR) = remove1 h q"
  "track q (Call (waveInUnprepareHeader h w) MMSYSERR_NOERROR) = remove1 h q"
  by (simp_all add: track_def)

lemma track_other [simp]:
  "track q (Call (waveOutPrepareHeader h w) r) = q"
  "track q (Call (waveInPrepareHeader h w) r) = q"
  "track q (Call waveOutReset r) = q"
  "track q (Call waveInReset r) = q"
  "track q (Call waveInStart r) = q"
  "track q (Call waveInStop r) = q"
  "track q (GetData d) = q"
  "track q (OnChunk b c) = q"
  "track q (Wait h r f) = q"
  by (simp_all add: track_def)

lemma wait_forD: "wait_for h e \<Longrightarrow> \<exists>r f. e = Wait h r f"
  by (cases e) simp_all

lemma submitted_waits [simp]: "list_all (wait_for h) ws \<Longrightarrow> submitted ws = []"
  by (induction ws) (auto dest: wait_forD)

lemma unprepared_waits [simp]: "list_all (wait_for h) ws \<Longrightarrow> unprepared ws = []"
  by (induction ws) (auto dest: wait_forD)

lemma chunks_waits [simp]: "list_all (wait_for h) ws \<Longrightarrow> chunks ws = []"
  by (induction ws) (auto dest: wait_forD)

lemma track_waits [simp]: "list_all (wait_for h) ws \<Longrightarrow> foldl track q ws = q"
  by (induction ws arbitrary: q) (auto dest: wait_forD)

lemma wait_loop_ends:
  assumes "waits_end env"
  shows "\<exists>ws. wait_loop env h tr = Some (tr @ ws) \<and> list_all (wait_for h) ws"
proof -
  let ?E = "\<lambda>n. WaitForSingleObject env (length tr + n) \<noteq> 0 \<or> dwFlags env (length tr + n) h AND 1 = 1"
  from assms have "\<exists>n. ?E n"
    unfolding waits_end_def by blast
  then obtain n where n: "?E n" "\<forall>i<n. \<not> ?E i"
    using exists_least_iff [of ?E] by blast
  then have "wait_loop env h tr = Some (tr @ waits_from env h (length tr) (Suc n))"
    by (intro wait_loop_complete) auto
  with waits_from_wait_for show ?thesis by blast
qed


lemma play_loop_True: "play_loop env get_data ph pn hdrs True tr = Some (Inr (), tr)"
  by (subst play_loop.simps) simp

lemma play_loop_raise:
  assumes "device_ok env" "get_data (invocations tr) = Raise e"
  shows "play_loop env get_data ph pn hdrs False tr
     = Some (Inl e, tr @ [GetData (Raise e), Call waveOutReset MMSYSERR_NOERROR,
                          Call (waveOutUnprepareHeader pn (hdrs pn)) MMSYSERR_NOERROR])"
  using assms by (subst play_loop.simps) (simp add: call_get_data_eq play_submit_next_def Let_def play_finally_ok)

lemma play_loop_stop:
  assumes "device_ok env" "get_data (invocations tr) = Return d"
    and "d = None \<or> (\<exists>b. d = Some b \<and> len b = 0)"
    and "wait_loop env pn (tr @ [GetData (Return d)]) = Some tr3"
  shows "play_loop env get_data ph pn hdrs False tr
     = Some (Inr (), tr3 @ [Call (waveOutUnprepareHeader pn (hdrs pn)) MMSYSERR_NOERROR])"
  using assms
  by (subst play_loop.simps) (auto simp: call_get_data_eq play_submit_next_def Let_def hdr_out_unprepare_ok play_loop_True)

lemma play_loop_continue:
  assumes "device_ok env" "get_data (invocations tr) = Return (Some b)" "len b \<noteq> 0"
    and "w = \<lparr>lpData = Some b, dwBufferLength = int (len b)\<rparr>"
    and "wait_loop env pn (tr @ [GetData (Return (Some b)),
            Call (waveOutPrepareHeader ph w) MMSYSERR_NOERROR,
            Call (waveOutWrite ph w) MMSYSERR_NOERROR]) = Some tr3"
  shows "play_loop env get_data ph pn hdrs False tr
     = play_loop env get_data pn ph (hdrs(ph := w)) False
         (tr3 @ [Call (waveOutUnprepareHeader pn ((hdrs(ph := w)) pn)) MMSYSERR_NOERROR])"
  using assms
  by (subst play_loop.simps)
    (simp add: call_get_data_eq play_submit_next_def hdr_out_unprepare_ok hdr_out_prepare_write_ok)

lemma play_loop_returns:
  assumes ok: "device_ok env" and we: "waits_end env"
  shows "(\<forall>i<n. \<exists>b. get_data (invocations tr + i) = Return (Some b) \<and> len b \<noteq> 0) \<Longrightarrow>
         \<not> (\<exists>b. get_data (invocations tr + n) = Return (Some b) \<and> len b \<noteq> 0) \<Longrightarrow>
         \<exists>y. play_loop env get_data ph pn hdrs False tr = Some y"
proof (induction n arbitrary: tr ph pn hdrs)
  case 0
  show ?case
  proof (cases "get_data (invocations tr)")
    case (Raise e)
    with ok show ?thesis by (simp add: play_loop_raise)
  next
    case (Return d)
    with 0 have d: "d = None \<or> (\<exists>b. d = Some b \<and> len b = 0)"
      by (cases d) auto
    from wait_loop_ends [OF we] obtain ws
      where "wait_loop env pn (tr @ [GetData (Return d)]) = Some ((tr @ [GetData (Return d)]) @ ws)"
      by blast
    from play_loop_stop [where get_data = get_data and tr = tr, OF ok Return d this]
    show ?thesis by simp
  qed
next
  case (Suc n)
  from Suc.prems(1) obtain b where b: "get_data (invocations tr) = Return (Some b)" "len b \<noteq> 0"
    by force
  define w where "w = \<lparr>lpData = Some b, dwBufferLength = int (len b)\<rparr>"
  let ?tr2 = "tr @ [GetData (Return (Some b)),
            Call (waveOutPrepareHeader ph w) MMSYSERR_NOERROR,
            Call (waveOutWrite ph w) MMSYSERR_NOERROR]"
  from wait_loop_ends [OF we] obtain ws
    where ws: "wait_loop env pn ?tr2 = Some (?tr2 @ ws)" "list_all (wait_for pn) ws"
    by blast
  let ?tr4 = "(?tr2 @ ws) @ [Call (waveOutUnprepareHeader pn ((hdrs(ph := w)) pn)) MMSYSERR_NOERROR]"
  have inv: "invocations ?tr4 = Suc (invocations tr)"
    using ws(2) by simp
  have "\<exists>y. play_loop env get_data pn ph (hdrs(ph := w)) False ?tr4 = Some y"
  proof (rule Suc.IH)
    show "\<forall>i<n. \<exists>b. get_data (invocations ?tr4 + i) = Return (Some b) \<and> len b \<noteq> 0"
      using Suc.prems(1) unfolding inv by (metis Suc_less_eq add_Suc_shift)
    show "\<not> (\<exists>b. get_data (invocations ?tr4 + n) = Return (Some b) \<and> len b \<noteq> 0)"
      using Suc.prems(2) unfolding inv by simp
  qed
  with play_loop_continue [where get_data = get_data and tr = tr, OF ok b w_def ws(1)]
  show ?case by simp
qed

lemma play_loop_balanced:
  assumes "play_loop env get_data ph pn hdrs False tr = Some (res, tr')" "device_ok env"
    and "ph \<noteq> pn" "submitted tr = unprepared tr @ [(pn, hdrs pn)]" "outstanding tr = [pn]"
  shows "unprepared tr' = submitted tr' \<and> outstanding tr' = []"
  using assms
proof (induction rule: play_loop_induct)
  case (Raise ph pn hdrs tr e)
  then show ?case by (simp add: outstanding_append)
next
  case (Stop ph pn hdrs tr d ws)
  then show ?case by (simp add: outstanding_append)
next
  case (Continue ph pn hdrs tr b w ws res tr')
  show ?case
  proof (rule Continue.IH)
    show "pn \<noteq> ph" using Continue.prems by simp
    show "submitted (tr @ [GetData (Return (Some b)), Call (waveOutPrepareHeader ph w) MMSYSERR_NOERROR,
             Call (waveOutWrite ph w) MMSYSERR_NOERROR] @ ws @
            [Call (waveOutUnprepareHeader pn ((hdrs(ph := w)) pn)) MMSYSERR_NOERROR])
        = unprepared (tr @ [GetData (Return (Some b)), Call (waveOutPrepareHeader ph w) MMSYSERR_NOERROR,
             Call (waveOutWrite ph w) MMSYSERR_NOERROR] @ ws @
            [Call (waveOutUnprepareHeader pn ((hdrs(ph := w)) pn)) MMSYSERR_NOERROR])
          @ [(ph, (hdrs(ph := w)) ph)]"
      using Continue.prems Continue.hyps by simp
    show "outstanding (tr @ [GetData (Return (Some b)), Call (waveOutPrepareHeader ph w) MMSYSERR_NOERROR,
             Call (waveOutWrite ph w) MMSYSERR_NOERROR] @ ws @
            [Call (waveOutUnprepareHeader pn ((hdrs(ph := w)) pn)) MMSYSERR_NOERROR]) = [ph]"
      using Continue.prems Continue.hyps by (simp add: outstanding_append)
  qed
qed

lemma play_loop_chunks:
  assumes "play_loop env get_data ph pn hdrs False tr = Some (res, tr')" "device_ok env"
    and "\<forall>i<n. \<exists>b. get_data (invocations tr + i) = Return (Some b) \<and> len b \<noteq> 0"
    and "get_data (invocations tr + n) = Return None
         \<or> (\<exists>b. get_data (invocations tr + n) = Return (Some b) \<and> len b = 0)"
  shows "res = Inr () \<and> (\<exists>S. submitted tr' = submitted tr @ S \<and> length S = n
           \<and> (\<forall>i<n. get_data (invocations tr + i) = Return (lpData (snd (S ! i)))))"
  using assms
proof (induction arbitrary: n rule: play_loop_induct)
  case (Raise ph pn hdrs tr e)
  then show ?case by (cases n) auto
next
  case (Stop ph pn hdrs tr d ws)
  have "n = 0"
  proof (rule ccontr)
    assume "n \<noteq> 0"
    with Stop.prems(1) obtain b where "get_data (invocations tr) = Return (Some b)" "len b \<noteq> 0"
      by force
    with Stop.hyps show False by auto
  qed
  with Stop.hyps show ?case by simp
next
  case (Continue ph pn hdrs tr b w ws res tr')
  let ?tr1 = "tr @ [GetData (Return (Some b)), Call (waveOutPrepareHeader ph w) MMSYSERR_NOERROR,
                 Call (waveOutWrite ph w) MMSYSERR_NOERROR] @ ws @
                [Call (waveOutUnprepareHeader pn ((hdrs(ph := w)) pn)) MMSYSERR_NOERROR]"
  have inv: "invocations ?tr1 = Suc (invocations tr)"
    using Continue.hyps by simp
  have sub: "submitted ?tr1 = submitted tr @ [(ph, w)]"
    using Continue.hyps by simp
  from Continue.hyps(1,2) Continue.prems(2) obtain m where n: "n = Suc m"
    by (cases n) auto
  have "res = Inr () \<and> (\<exists>S. submitted tr' = submitted ?tr1 @ S \<and> length S = m
           \<and> (\<forall>i<m. get_data (invocations ?tr1 + i) = Return (lpData (snd (S ! i)))))"
  proof (rule Continue.IH)
    show "\<forall>i<m. \<exists>b. get_data (invocations ?tr1 + i) = Return (Some b) \<and> len b \<noteq> 0"
      using Continue.prems(1) unfolding inv n by (metis Suc_less_eq add_Suc_shift)
    show "get_data (invocations ?tr1 + m) = Return None
         \<or> (\<exists>b. get_data (invocations ?tr1 + m) = Return (Some b) \<and> len b = 0)"
      using Continue.prems(2) unfolding inv n by simp
  qed
  then obtain S where S: "res = Inr ()" "submitted tr' = submitted ?tr1 @ S" "length S = m"
    "\<forall>i<m. get_data (invocations ?tr1 + i) = Return (lpData (snd (S ! i)))"
    by blast
  have "\<forall>i<n. get_data (invocations tr + i) = Return (lpData (snd (((ph, w) # S) ! i)))"
  proof (intro allI impI)
    fix i assume "i < n"
    show "get_data (invocations tr + i) = Return (lpData (snd (((ph, w) # S) ! i)))"
    proof (cases i)
      case 0
      with Continue.hyps show ?thesis by simp
    next
      case (Suc k)
      with \<open>i < n\<close> n S(4) inv show ?thesis by simp
    qed
  qed
  moreover have "submitted tr' = submitted tr @ (ph, w) # S"
    using S(2) sub by simp
  moreover have "length ((ph, w) # S) = n"
    using S(3) n by simp
  ultimately show ?case using S(1) by blast
qed

text \<open>
  C6: on a device whose calls succeed and whose waits come to an end, when the producer
  returns \<open>N\<close> non-empty chunks and then nothing (\<open>None\<close> or an empty buffer), \<open>play\<close>
  returns normally, submits exactly \<open>N\<close> buffers, the \<open>i\<close>-th of them holding the
  \<open>i\<close>-th chunk, and unprepares exactly these buffers in the order of their submission.
  For \<open>N = 0\<close> the trace of the call is the one invocation of the producer: nothing is
  submitted and the device is not touched.
\<close>

theorem play_submits_in_order:
  assumes ok: "device_ok env" and we: "waits_end env"
    and chunks: "\<forall>i<N. \<exists>b. get_data i = Return (Some b) \<and> len b \<noteq> 0"
    and last: "get_data N = Return None \<or> (\<exists>b. get_data N = Return (Some b) \<and> len b = 0)"
  shows "\<exists>tr. PlaybackDevice_play env get_data [] = Some (Inr (), tr)
           \<and> length (submitted tr) = N
           \<and> unprepared tr = submitted tr
           \<and> (\<forall>i<N. get_data i = Return (lpData (snd (submitted tr ! i))))
           \<and> (N = 0 \<longrightarrow> tr = [GetData (get_data 0)])"
proof (cases N)
  case 0
  with last show ?thesis
    by (auto simp: PlaybackDevice_play_def call_get_data_eq)
next
  case (Suc n)
  with chunks obtain b where b: "get_data 0 = Return (Some b)" "len b \<noteq> 0"
    by force
  define w where "w = \<lparr>lpData = Some b, dwBufferLength = int (len b)\<rparr>"
  define hdrs where "hdrs = (\<lambda>_. ZeroMemory)(hdr2 := w)"
  define tr2 where "tr2 = [GetData (Return (Some b)),
     Call (waveOutPrepareHeader hdr2 w) MMSYSERR_NOERROR, Call (waveOutWrite hdr2 w) MMSYSERR_NOERROR]"
  have play: "PlaybackDevice_play env get_data [] = play_loop env get_data hdr1 hdr2 hdrs False tr2"
    using b ok
    by (simp add: PlaybackDevice_play_def call_get_data_eq hdr_out_prepare_write_ok Let_def
        w_def hdrs_def tr2_def)
  have inv: "invocations tr2 = 1"
    by (simp add: tr2_def)
  have later: "\<forall>i<n. \<exists>b. get_data (invocations tr2 + i) = Return (Some b) \<and> len b \<noteq> 0"
    using chunks Suc unfolding inv by simp
  have fin: "get_data (invocations tr2 + n) = Return None
         \<or> (\<exists>b. get_data (invocations tr2 + n) = Return (Some b) \<and> len b = 0)"
    using last Suc unfolding inv by simp
  from fin have "\<not> (\<exists>b. get_data (invocations tr2 + n) = Return (Some b) \<and> len b \<noteq> 0)"
    by auto
  from play_loop_returns [OF ok we later this] obtain res tr
    where run: "play_loop env get_data hdr1 hdr2 hdrs False tr2 = Some (res, tr)"
    by (metis surj_pair)
  from play_loop_chunks [OF run ok later fin]
  obtain S where S: "res = Inr ()" "submitted tr = submitted tr2 @ S" "length S = n"
    "\<forall>i<n. get_data (invocations tr2 + i) = Return (lpData (snd (S ! i)))"
    by blast
  have "unprepared tr = submitted tr"
    using play_loop_balanced [OF run ok]
    by (simp add: tr2_def hdrs_def outstanding_def)
  moreover have sub: "submitted tr = (hdr2, w) # S"
    using S(2) by (simp add: tr2_def)
  moreover have "\<forall>i<N. get_data i = Return (lpData (snd (submitted tr ! i)))"
  proof (intro allI impI)
    fix i assume "i < N"
    show "get_data i = Return (lpData (snd (submitted tr ! i)))"
    proof (cases i)
      case 0
      with b sub show ?thesis by (simp add: w_def)
    next
      case (Suc k)
      with \<open>i < N\<close> \<open>N = Suc n\<close> S(4) inv sub show ?thesis by simp
    qed
  qed
  ultimately show ?thesis
    using play run S(1,3) Suc by simp
qed

lemma waits_end_ideal [simp]: "waits_end ideal_env"
  by (simp add: waits_end_def ideal_env_def)

theorem play_submits_in_order_witness:
  "PlaybackDevice_play ideal_env two_chunks []
     = Some (Inr (),
         [GetData (Return (Some (Bytes [1, 2, 3, 4]))),
          Call (waveOutPrepareHeader hdr2 \<lparr>lpData = Some (Bytes [1, 2, 3, 4]), dwBufferLength = 4\<rparr>) 0,
          Call (waveOutWrite hdr2 \<lparr>lpData = Some (Bytes [1, 2, 3, 4]), dwBufferLength = 4\<rparr>) 0,
          GetData (Return (Some (Bytes [1, 2, 3, 4]))),
          Call (waveOutPrepareHeader hdr1 \<lparr>lpData = Some (Bytes [1, 2, 3, 4]), dwBufferLength = 4\<rparr>) 0,
          Call (waveOutWrite hdr1 \<lparr>lpData = Some (Bytes [1, 2, 3, 4]), dwBufferLength = 4\<rparr>) 0,
          Wait hdr2 0 1,
          Call (waveOutUnprepareHeader hdr2 \<lparr>lpData = Some (Bytes [1, 2, 3, 4]), dwBufferLength = 4\<rparr>) 0,
          GetData (Return None),
          Wait hdr1 0 1,
          Call (waveOutUnprepareHeader hdr1 \<lparr>lpData = Some (Bytes [1, 2, 3, 4]), dwBufferLength = 4\<rparr>) 0])
   \<and> length (submitted (snd (the (PlaybackDevice_play ideal_env two_chunks [])))) = 2
   \<and> unprepared (snd (the (PlaybackDevice_play ideal_env two_chunks [])))
     = submitted (snd (the (PlaybackDevice_play ideal_env two_chunks [])))"
proof -
  have "\<forall>i<2. \<exists>b. two_chunks i = Return (Some b) \<and> len b \<noteq> 0"
    by (simp add: two_chunks_def)
  moreover have "two_chunks 2 = Return None \<or> (\<exists>b. two_chunks 2 = Return (Some b) \<and> len b = 0)"
    by (simp add: two_chunks_def)
  ultimately obtain tr where tr: "PlaybackDevice_play ideal_env two_chunks [] = Some (Inr (), tr)"
    "length (submitted tr) = 2" "unprepared tr = submitted tr"
    using play_submits_in_order [of ideal_env 2 two_chunks] by auto
  moreover have "PlaybackDevice_play ideal_env two_chunks []
     = Some (Inr (),
         [GetData (Return (Some (Bytes [1, 2, 3, 4]))),
          Call (waveOutPrepareHeader hdr2 \<lparr>lpData = Some (Bytes [1, 2, 3, 4]), dwBufferLength = 4\<rparr>) 0,
          Call (waveOutWrite hdr2 \<lparr>lpData = Some (Bytes [1, 2, 3, 4]), dwBufferLength = 4\<rparr>) 0,
          GetData (Return (Some (Bytes [1, 2, 3, 4]))),
          Call (waveOutPrepareHeader hdr1 \<lparr>lpData = Some (Bytes [1, 2, 3, 4]), dwBufferLength = 4\<rparr>) 0,
          Call (waveOutWrite hdr1 \<lparr>lpData = Some (Bytes [1, 2, 3, 4]), dwBufferLength = 4\<rparr>) 0,
          Wait hdr2 0 1,
          Call (waveOutUnprepareHeader hdr2 \<lparr>lpData = Some (Bytes [1, 2, 3, 4]), dwBufferLength = 4\<rparr>) 0,
          GetData (Return None),
          Wait hdr1 0 1,
          Call (waveOutUnprepareHeader hdr1 \<lparr>lpData = Some (Bytes [1, 2, 3, 4]), dwBufferLength = 4\<rparr>) 0])"
    by code_simp
  ultimately show ?thesis by simp
qed

subsection \<open>The main loop of record\<close>

lemma record_loop_False:
  "record_loop env on_chunk ph pn hdrs d1 d2 False tr = Some (Inr (), tr)"
  by (subst record_loop.simps) simp

lemma record_loop_step:
  assumes "device_ok env"
    and "wait_loop env ph (tr @ [Call (waveInPrepareHeader pn (hdrs pn)) MMSYSERR_NOERROR,
                                 Call (waveInAddBuffer pn (hdrs pn)) MMSYSERR_NOERROR]) = Some tr2"
  shows "record_loop env on_chunk ph pn hdrs d1 d2 True tr
     = (case on_chunk (invocations tr2) d1 of
          Return a \<Rightarrow> record_loop env on_chunk pn ph hdrs d2 d1 a
             (tr2 @ [OnChunk d1 (Return a),
                     Call (waveInUnprepareHeader ph (hdrs ph)) MMSYSERR_NOERROR])
        | Raise e \<Rightarrow> Some (Inl e, tr2 @ [OnChunk d1 (Raise e),
                     Call (waveInUnprepareHeader ph (hdrs ph)) MMSYSERR_NOERROR,
                     Call waveInReset MMSYSERR_NOERROR,
                     Call (waveInUnprepareHeader pn (hdrs pn)) MMSYSERR_NOERROR]))"
  using assms
  by (subst record_loop.simps)
    (simp add: hdr_in_prepare_add_ok call_on_chunk_eq record_finally_ok split: cb.splits)

lemma record_loop_returns:
  assumes ok: "device_ok env" and we: "waits_end env"
  shows "(\<forall>i<n. \<forall>b. on_chunk (invocations tr + i) b = Return True) \<Longrightarrow>
         (\<forall>b. on_chunk (invocations tr + n) b \<noteq> Return True) \<Longrightarrow>
         \<exists>y. record_loop env on_chunk ph pn hdrs d1 d2 True tr = Some y"
proof (induction n arbitrary: tr ph pn d1 d2)
  case 0
  let ?tr1 = "tr @ [Call (waveInPrepareHeader pn (hdrs pn)) MMSYSERR_NOERROR,
                    Call (waveInAddBuffer pn (hdrs pn)) MMSYSERR_NOERROR]"
  from wait_loop_ends [OF we] obtain ws
    where ws: "wait_loop env ph ?tr1 = Some (?tr1 @ ws)" "list_all (wait_for ph) ws"
    by blast
  have inv: "invocations (?tr1 @ ws) = invocations tr"
    using ws(2) by simp
  from 0 have "on_chunk (invocations tr) d1 \<noteq> Return True"
    by simp
  then show ?case
    unfolding record_loop_step [where hdrs = hdrs and pn = pn and tr = tr, OF ok ws(1)] inv
    by (cases "on_chunk (invocations tr) d1") (auto simp: record_loop_False)
next
  case (Suc n)
  let ?tr1 = "tr @ [Call (waveInPrepareHeader pn (hdrs pn)) MMSYSERR_NOERROR,
                    Call (waveInAddBuffer pn (hdrs pn)) MMSYSERR_NOERROR]"
  from wait_loop_ends [OF we] obtain ws
    where ws: "wait_loop env ph ?tr1 = Some (?tr1 @ ws)" "list_all (wait_for ph) ws"
    by blast
  have inv: "invocations (?tr1 @ ws) = invocations tr"
    using ws(2) by simp
  from Suc.prems(1) have now: "on_chunk (invocations tr) d1 = Return True"
    by force
  let ?tr3 = "(?tr1 @ ws) @ [OnChunk d1 (Return True),
                     Call (waveInUnprepareHeader ph (hdrs ph)) MMSYSERR_NOERROR]"
  have inv3: "invocations ?tr3 = Suc (invocations tr)"
    using ws(2) by simp
  have "\<exists>y. record_loop env on_chunk pn ph hdrs d2 d1 True ?tr3 = Some y"
  proof (rule Suc.IH)
    show "\<forall>i<n. \<forall>b. on_chunk (invocations ?tr3 + i) b = Return True"
      using Suc.prems(1) unfolding inv3 by (metis Suc_less_eq add_Suc_shift)
    show "\<forall>b. on_chunk (invocations ?tr3 + n) b \<noteq> Return True"
      using Suc.prems(2) unfolding inv3 by simp
  qed
  then show ?case
    unfolding record_loop_step [where hdrs = hdrs and pn = pn and tr = tr, OF ok ws(1)] inv now by simp
qed

lemma record_stop_ok':
  "device_ok env \<Longrightarrow>
   (\<lambda>(res, tr). record_stop env res tr)
     = (\<lambda>(res, tr). (res, tr @ [Call waveInStop MMSYSERR_NOERROR]))"
  by (simp add: fun_eq_iff record_stop_ok)

lemma record_unfold:
  fixes self :: device
  assumes "device_ok env" "c_int_range samples"
  defines "n \<equiv> nat (to_WORD (c_int (nBlockAlign (c_fmt self) * samples)))"
  defines "w1 \<equiv> \<lparr>lpData = Some (ByteArray 0 n), dwBufferLength = int n\<rparr>"
  defines "w2 \<equiv> \<lparr>lpData = Some (ByteArray 1 n), dwBufferLength = int n\<rparr>"
  shows "RecordingDevice_record env self samples on_chunk []
     = map_option (\<lambda>(res, tr). (res, tr @ [Call waveInStop MMSYSERR_NOERROR]))
         (record_loop env on_chunk hdr1 hdr2 ((\<lambda>_. ZeroMemory)(hdr1 := w1, hdr2 := w2))
            (ByteArray 0 n) (ByteArray 1 n) True
            [Call (waveInPrepareHeader hdr1 w1) MMSYSERR_NOERROR,
             Call (waveInAddBuffer hdr1 w1) MMSYSERR_NOERROR,
             Call waveInStart MMSYSERR_NOERROR])"
  using assms(1,2)
  by (simp add: RecordingDevice_record_def bytearray_def Let_def hdr_in_prepare_add_ok dev_ok
      record_stop_ok' n_def w1_def w2_def)

lemma record_loop_counts:
  assumes "record_loop env on_chunk ph pn hdrs d1 d2 True tr = Some (res, tr')" "device_ok env"
    and "\<forall>i<n. \<forall>b. on_chunk (invocations tr + i) b = Return True"
    and "\<forall>b. on_chunk (invocations tr + n) b = Return False"
  shows "res = Inr ()
       \<and> length (submitted tr') = length (submitted tr) + Suc n
       \<and> length (chunks tr') = length (chunks tr) + Suc n
       \<and> set (chunks tr') \<subseteq> set (chunks tr) \<union> {d1, d2}"
  using assms
proof (induction arbitrary: n rule: record_loop_induct)
  case (Raise ph pn d1 d2 tr ws e)
  then show ?case by (cases n) auto
next
  case (Stop ph pn d1 d2 tr ws)
  have "n = 0"
  proof (rule ccontr)
    assume "n \<noteq> 0"
    with Stop.prems(1) have "on_chunk (invocations tr) d1 = Return True"
      by force
    with Stop.hyps show False by simp
  qed
  with Stop.hyps show ?case by auto
next
  case (Continue ph pn d1 d2 tr ws res tr')
  let ?tr1 = "tr @ [Call (waveInPrepareHeader pn (hdrs pn)) MMSYSERR_NOERROR,
                 Call (waveInAddBuffer pn (hdrs pn)) MMSYSERR_NOERROR] @ ws @
                [OnChunk d1 (Return True),
                 Call (waveInUnprepareHeader ph (hdrs ph)) MMSYSERR_NOERROR]"
  have inv: "invocations ?tr1 = Suc (invocations tr)"
    using Continue.hyps by simp
  from Continue.hyps(2) Continue.prems(2) obtain m where n: "n = Suc m"
    by (cases n) auto
  have "res = Inr ()
       \<and> length (submitted tr') = length (submitted ?tr1) + Suc m
       \<and> length (chunks tr') = length (chunks ?tr1) + Suc m
       \<and> set (chunks tr') \<subseteq> set (chunks ?tr1) \<union> {d2, d1}"
  proof (rule Continue.IH)
    show "\<forall>i<m. \<forall>b. on_chunk (invocations ?tr1 + i) b = Return True"
      using Continue.prems(1) unfolding inv n by (metis Suc_less_eq add_Suc_shift)
    show "\<forall>b. on_chunk (invocations ?tr1 + m) b = Return False"
      using Continue.prems(2) unfolding inv n by simp
  qed
  with Continue.hyps(1) n show ?case by auto
qed

lemma stereo_16bit_blockAlign: "nBlockAlign (c_fmt stereo_16bit) = 4"
  by (simp add: stereo_16bit_def make_fmt_def to_WORD_def c_int_def)

text \<open>
  The counts and the size of the buffers of \<open>record\<close>. On a device whose calls succeed and
  whose waits come to an end, for every count \<open>k\<close> in the range of a C \<open>int\<close>, when the
  consumer returns true on its first \<open>M - 1\<close> invocations and false on invocation \<open>M\<close>,
  \<open>record\<close> returns normally, submits exactly \<open>M + 1\<close> buffers and invokes the consumer
  exactly \<open>M\<close> times; every invocation receives a buffer of \<open>k * blockAlign\<close> bytes
  reduced to 16 bits, which is \<open>k * blockAlign\<close> itself when that is below 65536.
\<close>

lemma record_counts_wrapped:
  assumes ok: "device_ok env" and we: "waits_end env"
    and k: "c_int_range k"
    and M: "0 < M"
    and more: "\<forall>i<M - 1. \<forall>b. consume i b = Return True"
    and stop: "\<forall>b. consume (M - 1) b = Return False"
  shows "\<exists>tr. RecordingDevice_record env self k consume [] = Some (Inr (), tr)
           \<and> length (submitted tr) = M + 1
           \<and> length (chunks tr) = M
           \<and> (\<forall>b\<in>set (chunks tr). int (len b) = (k * nBlockAlign (c_fmt self)) mod 2 ^ 16)"
proof -
  define n where "n = nat (to_WORD (c_int (nBlockAlign (c_fmt self) * k)))"
  define w1 where "w1 = \<lparr>lpData = Some (ByteArray 0 n), dwBufferLength = int n\<rparr>"
  define w2 where "w2 = \<lparr>lpData = Some (ByteArray 1 n), dwBufferLength = int n\<rparr>"
  define tr0 where "tr0 = [Call (waveInPrepareHeader hdr1 w1) MMSYSERR_NOERROR,
             Call (waveInAddBuffer hdr1 w1) MMSYSERR_NOERROR,
             Call waveInStart MMSYSERR_NOERROR]"
  let ?hdrs = "(\<lambda>_. ZeroMemory)(hdr1 := w1, hdr2 := w2)"
  have n: "int n = (k * nBlockAlign (c_fmt self)) mod 2 ^ 16"
    by (simp add: n_def to_WORD_c_int mult.commute)
  have rec: "RecordingDevice_record env self k consume []
     = map_option (\<lambda>(res, tr). (res, tr @ [Call waveInStop MMSYSERR_NOERROR]))
         (record_loop env consume hdr1 hdr2 ?hdrs (ByteArray 0 n) (ByteArray 1 n) True tr0)"
    using record_unfold [OF ok k, of self consume]
    by (simp add: n_def w1_def w2_def tr0_def)
  have inv: "invocations tr0 = 0"
    by (simp add: tr0_def)
  have more': "\<forall>i<M - 1. \<forall>b. consume (invocations tr0 + i) b = Return True"
    using more unfolding inv by simp
  have stop': "\<forall>b. consume (invocations tr0 + (M - 1)) b = Return False"
    using stop unfolding inv by simp
  then have "\<forall>b. consume (invocations tr0 + (M - 1)) b \<noteq> Return True"
    by simp
  from record_loop_returns [OF ok we more' this] obtain res tr
    where run: "record_loop env consume hdr1 hdr2 ?hdrs (ByteArray 0 n) (ByteArray 1 n) True tr0
                  = Some (res, tr)"
    by (metis surj_pair)
  from record_loop_counts [OF run ok more' stop']
  have "res = Inr ()" "length (submitted tr) = M + 1" "length (chunks tr) = M"
    "set (chunks tr) \<subseteq> {ByteArray 0 n, ByteArray 1 n}"
    using M by (simp_all add: tr0_def)
  then show ?thesis
    using rec run n by auto
qed

lemma record_counts_exact:
  assumes "device_ok env" "waits_end env" "c_int_range k" "0 < M"
    and "\<forall>i<M - 1. \<forall>b. consume i b = Return True"
    and "\<forall>b. consume (M - 1) b = Return False"
    and "0 \<le> k * nBlockAlign (c_fmt self)" "k * nBlockAlign (c_fmt self) < 2 ^ 16"
  shows "\<exists>tr. RecordingDevice_record env self k consume [] = Some (Inr (), tr)
           \<and> length (submitted tr) = M + 1
           \<and> length (chunks tr) = M
           \<and> (\<forall>b\<in>set (chunks tr). int (len b) = k * nBlockAlign (c_fmt self))"
  using record_counts_wrapped [OF assms(1-6), of self] assms(7,8) by simp

text \<open>
  C5 fails on the code when \<open>k * blockAlign\<close> is 65536 or more. On a stereo 16-bit
  device (\<open>nBlockAlign = 4\<close>), \<open>record(20000, consume)\<close> with a consumer that stops at
  once submits two buffers and invokes the consumer once, as the claim says, but the buffer
  it hands over has 14464 bytes, not \<open>20000 * 4 = 80000\<close>: the product reaches
  \<open>bytearray\<close> reduced to 16 bits.
\<close>

theorem record_buffer_size_wraps:
  "20000 * nBlockAlign (c_fmt stereo_16bit) = 80000
   \<and> RecordingDevice_record ideal_env stereo_16bit 20000 take_one []
     = Some (Inr (),
         [Call (waveInPrepareHeader hdr1 \<lparr>lpData = Some (ByteArray 0 14464), dwBufferLength = 14464\<rparr>) 0,
          Call (waveInAddBuffer hdr1 \<lparr>lpData = Some (ByteArray 0 14464), dwBufferLength = 14464\<rparr>) 0,
          Call waveInStart 0,
          Call (waveInPrepareHeader hdr2 \<lparr>lpData = Some (ByteArray 1 14464), dwBufferLength = 14464\<rparr>) 0,
          Call (waveInAddBuffer hdr2 \<lparr>lpData = Some (ByteArray 1 14464), dwBufferLength = 14464\<rparr>) 0,
          Wait hdr1 0 1,
          OnChunk (ByteArray 0 14464) (Return False),
          Call (waveInUnprepareHeader hdr1 \<lparr>lpData = Some (ByteArray 0 14464), dwBufferLength = 14464\<rparr>) 0,
          Call waveInStop 0])"
proof -
  have n: "nat (to_WORD (c_int (nBlockAlign (c_fmt stereo_16bit) * 20000))) = 14464"
    by (simp add: stereo_16bit_blockAlign to_WORD_def c_int_def)
  have k: "c_int_range 20000"
    by (simp add: c_int_range_def)
  have w: "wait_loop ideal_env hdr1 tr = Some (tr @ [Wait hdr1 0 1])" for tr
    by (subst wait_loop.simps) (simp add: ideal_env_def Let_def)
  note u = record_unfold [OF device_ok_ideal k, of stereo_16bit take_one, unfolded n]
  show ?thesis
    unfolding u
    by (simp add: stereo_16bit_blockAlign record_loop_step [OF device_ok_ideal w] take_one_def
        record_loop_False MMSYSERR_NOERROR_def)
qed

subsection \<open>Errors raised by a callback\<close>

lemma play_loop_raises:
  assumes "play_loop env get_data ph pn hdrs False tr = Some (res, tr')" "device_ok env"
    and "\<forall>i<n. \<exists>b. get_data (invocations tr + i) = Return (Some b) \<and> len b \<noteq> 0"
    and "get_data (invocations tr + n) = Raise e"
    and "outstanding tr = [pn]" "ph \<noteq> pn"
  shows "res = Inl e \<and> (\<exists>tr0 h w.
           tr' = tr0 @ [GetData (Raise e), Call waveOutReset MMSYSERR_NOERROR,
                        Call (waveOutUnprepareHeader h w) MMSYSERR_NOERROR]
           \<and> outstanding tr0 = [h])"
  using assms
proof (induction arbitrary: n rule: play_loop_induct)
  case (Raise ph pn hdrs tr e')
  have "n = 0"
  proof (rule ccontr)
    assume "n \<noteq> 0"
    with Raise.prems(1) obtain b where "get_data (invocations tr) = Return (Some b)"
      by force
    with Raise.hyps show False by simp
  qed
  with Raise show ?case by auto
next
  case (Stop ph pn hdrs tr d ws)
  then show ?case by (cases n) auto
next
  case (Continue ph pn hdrs tr b w ws res tr')
  let ?tr1 = "tr @ [GetData (Return (Some b)), Call (waveOutPrepareHeader ph w) MMSYSERR_NOERROR,
                 Call (waveOutWrite ph w) MMSYSERR_NOERROR] @ ws @
                [Call (waveOutUnprepareHeader pn ((hdrs(ph := w)) pn)) MMSYSERR_NOERROR]"
  have inv: "invocations ?tr1 = Suc (invocations tr)"
    using Continue.hyps by simp
  from Continue.hyps(1) Continue.prems(2) obtain m where n: "n = Suc m"
    by (cases n) auto
  show ?case
  proof (rule Continue.IH)
    show "\<forall>i<m. \<exists>b. get_data (invocations ?tr1 + i) = Return (Some b) \<and> len b \<noteq> 0"
      using Continue.prems(1) unfolding inv n by (metis Suc_less_eq add_Suc_shift)
    show "get_data (invocations ?tr1 + m) = Raise e"
      using Continue.prems(2) unfolding inv n by simp
    show "outstanding ?tr1 = [ph]"
      using Continue.prems(3,4) Continue.hyps by (simp add: outstanding_append)
    show "pn \<noteq> ph"
      using Continue.prems(4) by simp
  qed
qed

lemma record_loop_raises:
  assumes "record_loop env on_chunk ph pn hdrs d1 d2 True tr = Some (res, tr')" "device_ok env"
    and "\<forall>i<n. \<forall>b. on_chunk (invocations tr + i) b = Return True"
    and "\<forall>b. on_chunk (invocations tr + n) b = Raise e"
    and "outstanding tr = [ph]" "ph \<noteq> pn"
  shows "res = Inl e \<and> (\<exists>tr0 b h w h' w'.
           tr' = tr0 @ [OnChunk b (Raise e),
                        Call (waveInUnprepareHeader h w) MMSYSERR_NOERROR,
                        Call waveInReset MMSYSERR_NOERROR,
                        Call (waveInUnprepareHeader h' w') MMSYSERR_NOERROR]
           \<and> outstanding tr0 = [h, h'] \<and> h \<noteq> h')"
  using assms
proof (induction arbitrary: n rule: record_loop_induct)
  case (Raise ph pn d1 d2 tr ws e')
  have "n = 0"
  proof (rule ccontr)
    assume "n \<noteq> 0"
    with Raise.prems(1) have "on_chunk (invocations tr) d1 = Return True"
      by force
    with Raise.hyps show False by simp
  qed
  with Raise.hyps Raise.prems have e: "e' = e"
    by simp
  let ?tr0 = "tr @ [Call (waveInPrepareHeader pn (hdrs pn)) MMSYSERR_NOERROR,
                    Call (waveInAddBuffer pn (hdrs pn)) MMSYSERR_NOERROR] @ ws"
  have "outstanding ?tr0 = [ph, pn]"
    using Raise.hyps Raise.prems by (simp add: outstanding_append)
  moreover have "tr @ [Call (waveInPrepareHeader pn (hdrs pn)) MMSYSERR_NOERROR,
                 Call (waveInAddBuffer pn (hdrs pn)) MMSYSERR_NOERROR] @ ws @
                [OnChunk d1 (Raise e'),
                 Call (waveInUnprepareHeader ph (hdrs ph)) MMSYSERR_NOERROR,
                 Call waveInReset MMSYSERR_NOERROR,
                 Call (waveInUnprepareHeader pn (hdrs pn)) MMSYSERR_NOERROR]
        = ?tr0 @ [OnChunk d1 (Raise e),
                 Call (waveInUnprepareHeader ph (hdrs ph)) MMSYSERR_NOERROR,
                 Call waveInReset MMSYSERR_NOERROR,
                 Call (waveInUnprepareHeader pn (hdrs pn)) MMSYSERR_NOERROR]"
    using e by simp
  ultimately show ?case
    using e Raise.prems(4) by blast
next
  case (Stop ph pn d1 d2 tr ws)
  then show ?case by (cases n) auto
next
  case (Continue ph pn d1 d2 tr ws res tr')
  let ?tr1 = "tr @ [Call (waveInPrepareHeader pn (hdrs pn)) MMSYSERR_NOERROR,
                 Call (waveInAddBuffer pn (hdrs pn)) MMSYSERR_NOERROR] @ ws @
                [OnChunk d1 (Return True),
                 Call (waveInUnprepareHeader ph (hdrs ph)) MMSYSERR_NOERROR]"
  have inv: "invocations ?tr1 = Suc (invocations tr)"
    using Continue.hyps by simp
  from Continue.hyps(2) Continue.prems(2) obtain m where n: "n = Suc m"
    by (cases n) auto
  show ?case
  proof (rule Continue.IH)
    show "\<forall>i<m. \<forall>b. on_chunk (invocations ?tr1 + i) b = Return True"
      using Continue.prems(1) unfolding inv n by (metis Suc_less_eq add_Suc_shift)
    show "\<forall>b. on_chunk (invocations ?tr1 + m) b = Raise e"
      using Continue.prems(2) unfolding inv n by simp
    show "outstanding ?tr1 = [pn]"
      using Continue.prems(3,4) Continue.hyps by (simp add: outstanding_append)
    show "pn \<noteq> ph"
      using Continue.prems(4) by simp
  qed
qed


text \<open>
  C7, as stated, fails for a producer that raises on its first invocation: \<open>play\<close> calls
  the producer before it touches the device, so the error surfaces at once and no device
  reset is performed.
\<close>

theorem first_invocation_no_reset:
  "PlaybackDevice_play ideal_env broken_producer []
     = Some (Inl (UserError ''boom''), [GetData (Raise (UserError ''boom''))])
   \<and> filter resets [GetData (Raise (UserError ''boom''))] = []"
  by (simp add: PlaybackDevice_play_def call_get_data_eq broken_producer_def)

text \<open>
  C7, amended: on a device whose calls succeed and whose waits come to an end, let the
  callback raise \<open>e\<close> on the invocation of index \<open>j\<close> (counted from 0) after returning
  chunks, respectively true, on all earlier ones. In \<open>play\<close> with \<open>j = 0\<close> nothing has been
  submitted and \<open>e\<close> surfaces with no device interaction at all. In \<open>play\<close> with \<open>j > 0\<close>
  the engine resets the device and unprepares the one header outstanding at that point,
  the in-flight current one. In \<open>record\<close>, for every \<open>j\<close>, it unprepares the current
  header, resets the device and unprepares the already queued next header, these two being
  the outstanding ones, and stops the device. In each case this happens before the call
  ends, no header is outstanding afterwards, and the call raises \<open>e\<close> itself.
\<close>

theorem callback_error_cleanup:
  assumes ok: "device_ok env" and we: "waits_end env"
  shows "(get_data 0 = Raise e \<longrightarrow>
            PlaybackDevice_play env get_data [] = Some (Inl e, [GetData (Raise e)]))
       \<and> (0 < j \<and> (\<forall>i<j. \<exists>b. get_data i = Return (Some b) \<and> len b \<noteq> 0)
            \<and> get_data j = Raise e \<longrightarrow>
            (\<exists>tr0 h w.
               PlaybackDevice_play env get_data []
                 = Some (Inl e, tr0 @ [GetData (Raise e), Call waveOutReset MMSYSERR_NOERROR,
                                       Call (waveOutUnprepareHeader h w) MMSYSERR_NOERROR])
               \<and> outstanding tr0 = [h]
               \<and> outstanding (tr0 @ [GetData (Raise e), Call waveOutReset MMSYSERR_NOERROR,
                                      Call (waveOutUnprepareHeader h w) MMSYSERR_NOERROR]) = []))
       \<and> (c_int_range samples \<and> 0 \<le> c_int (nBlockAlign (c_fmt self) * samples)
            \<and> (\<forall>i<j. \<forall>b. on_chunk i b = Return True) \<and> (\<forall>b. on_chunk j b = Raise e) \<longrightarrow>
            (\<exists>tr0 b h w h' w'.
               RecordingDevice_record env self samples on_chunk []
                 = Some (Inl e, tr0 @ [OnChunk b (Raise e),
                                       Call (waveInUnprepareHeader h w) MMSYSERR_NOERROR,
                                       Call waveInReset MMSYSERR_NOERROR,
                                       Call (waveInUnprepareHeader h' w') MMSYSERR_NOERROR,
                                       Call waveInStop MMSYSERR_NOERROR])
               \<and> outstanding tr0 = [h, h']
               \<and> outstanding (tr0 @ [OnChunk b (Raise e),
                                      Call (waveInUnprepareHeader h w) MMSYSERR_NOERROR,
                                      Call waveInReset MMSYSERR_NOERROR,
                                      Call (waveInUnprepareHeader h' w') MMSYSERR_NOERROR,
                                      Call waveInStop MMSYSERR_NOERROR]) = []))"
proof (intro conjI impI)
  assume "get_data 0 = Raise e"
  then show "PlaybackDevice_play env get_data [] = Some (Inl e, [GetData (Raise e)])"
    by (simp add: PlaybackDevice_play_def call_get_data_eq)
next
  assume a: "0 < j \<and> (\<forall>i<j. \<exists>b. get_data i = Return (Some b) \<and> len b \<noteq> 0)
            \<and> get_data j = Raise e"
  then obtain n where j: "j = Suc n"
    by (cases j) auto
  from a obtain b where b: "get_data 0 = Return (Some b)" "len b \<noteq> 0"
    by force
  define w where "w = \<lparr>lpData = Some b, dwBufferLength = int (len b)\<rparr>"
  define hdrs where "hdrs = (\<lambda>_. ZeroMemory)(hdr2 := w)"
  define tr2 where "tr2 = [GetData (Return (Some b)),
     Call (waveOutPrepareHeader hdr2 w) MMSYSERR_NOERROR, Call (waveOutWrite hdr2 w) MMSYSERR_NOERROR]"
  have play: "PlaybackDevice_play env get_data [] = play_loop env get_data hdr1 hdr2 hdrs False tr2"
    using b ok
    by (simp add: PlaybackDevice_play_def call_get_data_eq hdr_out_prepare_write_ok Let_def
        w_def hdrs_def tr2_def)
  have inv: "invocations tr2 = 1"
    by (simp add: tr2_def)
  have later: "\<forall>i<n. \<exists>b. get_data (invocations tr2 + i) = Return (Some b) \<and> len b \<noteq> 0"
    using a j unfolding inv by simp
  have fin: "get_data (invocations tr2 + n) = Raise e"
    using a j unfolding inv by simp
  then have "\<not> (\<exists>b. get_data (invocations tr2 + n) = Return (Some b) \<and> len b \<noteq> 0)"
    by simp
  from play_loop_returns [OF ok we later this] obtain res tr
    where run: "play_loop env get_data hdr1 hdr2 hdrs False tr2 = Some (res, tr)"
    by (metis surj_pair)
  have out: "outstanding tr2 = [hdr2]"
    by (simp add: tr2_def outstanding_def)
  from play_loop_raises [OF run ok later fin out]
  obtain tr0 h w' where "res = Inl e"
    "tr = tr0 @ [GetData (Raise e), Call waveOutReset MMSYSERR_NOERROR,
                 Call (waveOutUnprepareHeader h w') MMSYSERR_NOERROR]"
    "outstanding tr0 = [h]"
    by auto
  with play run
  show "\<exists>tr0 h w.
               PlaybackDevice_play env get_data []
                 = Some (Inl e, tr0 @ [GetData (Raise e), Call waveOutReset MMSYSERR_NOERROR,
                                       Call (waveOutUnprepareHeader h w) MMSYSERR_NOERROR])
               \<and> outstanding tr0 = [h]
               \<and> outstanding (tr0 @ [GetData (Raise e), Call waveOutReset MMSYSERR_NOERROR,
                                      Call (waveOutUnprepareHeader h w) MMSYSERR_NOERROR]) = []"
    by (auto simp: outstanding_append)
next
  assume a: "c_int_range samples \<and> 0 \<le> c_int (nBlockAlign (c_fmt self) * samples)
            \<and> (\<forall>i<j. \<forall>b. on_chunk i b = Return True) \<and> (\<forall>b. on_chunk j b = Raise e)"
  define n where "n = nat (to_WORD (c_int (nBlockAlign (c_fmt self) * samples)))"
  define w1 where "w1 = \<lparr>lpData = Some (ByteArray 0 n), dwBufferLength = int n\<rparr>"
  define w2 where "w2 = \<lparr>lpData = Some (ByteArray 1 n), dwBufferLength = int n\<rparr>"
  define tr1 where "tr1 = [Call (waveInPrepareHeader hdr1 w1) MMSYSERR_NOERROR,
             Call (waveInAddBuffer hdr1 w1) MMSYSERR_NOERROR,
             Call waveInStart MMSYSERR_NOERROR]"
  let ?hdrs = "(\<lambda>_. ZeroMemory)(hdr1 := w1, hdr2 := w2)"
  have rec: "RecordingDevice_record env self samples on_chunk []
     = map_option (\<lambda>(res, tr). (res, tr @ [Call waveInStop MMSYSERR_NOERROR]))
         (record_loop env on_chunk hdr1 hdr2 ?hdrs (ByteArray 0 n) (ByteArray 1 n) True tr1)"
    using record_unfold [OF ok, of samples self on_chunk] a
    by (simp add: n_def w1_def w2_def tr1_def)
  have inv: "invocations tr1 = 0"
    by (simp add: tr1_def)
  have more: "\<forall>i<j. \<forall>b. on_chunk (invocations tr1 + i) b = Return True"
    using a unfolding inv by simp
  have fin: "\<forall>b. on_chunk (invocations tr1 + j) b = Raise e"
    using a unfolding inv by simp
  then have "\<forall>b. on_chunk (invocations tr1 + j) b \<noteq> Return True"
    by simp
  from record_loop_returns [OF ok we more this] obtain res tr
    where run: "record_loop env on_chunk hdr1 hdr2 ?hdrs (ByteArray 0 n) (ByteArray 1 n) True tr1
                  = Some (res, tr)"
    by (metis surj_pair)
  have out: "outstanding tr1 = [hdr1]"
    by (simp add: tr1_def outstanding_def)
  from record_loop_raises [OF run ok more fin out]
  obtain tr0 b h w h' w' where "res = Inl e"
    "tr = tr0 @ [OnChunk b (Raise e),
                 Call (waveInUnprepareHeader h w) MMSYSERR_NOERROR,
                 Call waveInReset MMSYSERR_NOERROR,
                 Call (waveInUnprepareHeader h' w') MMSYSERR_NOERROR]"
    "outstanding tr0 = [h, h']" "h \<noteq> h'"
    by auto
  with rec run
  show "\<exists>tr0 b h w h' w'.
               RecordingDevice_record env self samples on_chunk []
                 = Some (Inl e, tr0 @ [OnChunk b (Raise e),
                                       Call (waveInUnprepareHeader h w) MMSYSERR_NOERROR,
                                       Call waveInReset MMSYSERR_NOERROR,
                                       Call (waveInUnprepareHeader h' w') MMSYSERR_NOERROR,
                                       Call waveInStop MMSYSERR_NOERROR])
               \<and> outstanding tr0 = [h, h']
               \<and> outstanding (tr0 @ [OnChunk b (Raise e),
                                      Call (waveInUnprepareHeader h w) MMSYSERR_NOERROR,
                                      Call waveInReset MMSYSERR_NOERROR,
                                      Call (waveInUnprepareHeader h' w') MMSYSERR_NOERROR,
                                      Call waveInStop MMSYSERR_NOERROR]) = []"
    by (auto simp: outstanding_append)
qed

theorem callback_error_cleanup_witness:
  "PlaybackDevice_play ideal_env broken_producer []
     = Some (Inl (UserError ''boom''), [GetData (Raise (UserError ''boom''))])
   \<and> fst (the (PlaybackDevice_play ideal_env flaky_producer [])) = Inl (UserError ''boom'')
   \<and> outstanding (snd (the (PlaybackDevice_play ideal_env flaky_producer []))) = []
   \<and> fst (the (RecordingDevice_record ideal_env stereo_16bit 3 flaky_consumer []))
       = Inl (UserError ''boom'')
   \<and> outstanding (snd (the (RecordingDevice_record ideal_env stereo_16bit 3 flaky_consumer [])))
       = []"
proof -
  note first = callback_error_cleanup [OF device_ok_ideal waits_end_ideal,
      where get_data = broken_producer and e = "UserError ''boom''", THEN conjunct1]
  note later = callback_error_cleanup [OF device_ok_ideal waits_end_ideal,
      where get_data = flaky_producer and e = "UserError ''boom''" and j = 1
        and samples = 3 and self = stereo_16bit and on_chunk = flaky_consumer, THEN conjunct2]
  have 1: "PlaybackDevice_play ideal_env broken_producer []
     = Some (Inl (UserError ''boom''), [GetData (Raise (UserError ''boom''))])"
    using first by (simp add: broken_producer_def)
  have "0 < (1::nat) \<and> (\<forall>i<1. \<exists>b. flaky_producer i = Return (Some b) \<and> len b \<noteq> 0)
      \<and> flaky_producer 1 = Raise (UserError ''boom'')"
    by (simp add: flaky_producer_def)
  with later [THEN conjunct1]
  have 2: "fst (the (PlaybackDevice_play ideal_env flaky_producer [])) = Inl (UserError ''boom'')
   \<and> outstanding (snd (the (PlaybackDevice_play ideal_env flaky_producer []))) = []"
    by auto
  have "c_int_range 3 \<and> 0 \<le> c_int (nBlockAlign (c_fmt stereo_16bit) * 3)
      \<and> (\<forall>i<1. \<forall>b. flaky_consumer i b = Return True)
      \<and> (\<forall>b. flaky_consumer 1 b = Raise (UserError ''boom''))"
    by (simp add: flaky_consumer_def c_int_range_def stereo_16bit_blockAlign c_int_def)
  with later [THEN conjunct2]
  have 3: "fst (the (RecordingDevice_record ideal_env stereo_16bit 3 flaky_consumer []))
       = Inl (UserError ''boom'')
   \<and> outstanding (snd (the (RecordingDevice_record ideal_env stereo_16bit 3 flaky_consumer [])))
       = []"
    by auto
  from 1 2 3 show ?thesis by simp
qed

subsection \<open>Outstanding headers at the end of a call\<close>

lemma record_loop_outstanding:
  assumes "record_loop env on_chunk ph pn hdrs d1 d2 True tr = Some (res, tr')" "device_ok env"
    and "outstanding tr = [ph]" "ph \<noteq> pn"
  shows "case res of Inl e \<Rightarrow> outstanding tr' = [] | Inr u \<Rightarrow> length (outstanding tr') = 1"
  using assms
proof (induction rule: record_loop_induct)
  case (Raise ph pn d1 d2 tr ws e)
  then show ?case by (simp add: outstanding_append)
next
  case (Stop ph pn d1 d2 tr ws)
  then show ?case by (simp add: outstanding_append)
next
  case (Continue ph pn d1 d2 tr ws res tr')
  show ?case
  proof (rule Continue.IH)
    show "outstanding (tr @ [Call (waveInPrepareHeader pn (hdrs pn)) MMSYSERR_NOERROR,
                 Call (waveInAddBuffer pn (hdrs pn)) MMSYSERR_NOERROR] @ ws @
                [OnChunk d1 (Return True),
                 Call (waveInUnprepareHeader ph (hdrs ph)) MMSYSERR_NOERROR]) = [pn]"
      using Continue.prems Continue.hyps by (simp add: outstanding_append)
    show "pn \<noteq> ph"
      using Continue.prems by simp
  qed
qed

lemma record_outstanding:
  assumes ok: "device_ok env"
    and run: "RecordingDevice_record env self samples on_chunk [] = Some (res, tr)"
  shows "case res of Inl e \<Rightarrow> outstanding tr = [] | Inr u \<Rightarrow> length (outstanding tr) = 1"
proof (cases "c_int_range samples")
  case False
  with run have "tr = [] \<and> (\<exists>e. res = Inl e)"
    by (auto simp: RecordingDevice_record_def)
  then show ?thesis by auto
next
  case True
  define n where "n = nat (to_WORD (c_int (nBlockAlign (c_fmt self) * samples)))"
  define w1 where "w1 = \<lparr>lpData = Some (ByteArray 0 n), dwBufferLength = int n\<rparr>"
  define w2 where "w2 = \<lparr>lpData = Some (ByteArray 1 n), dwBufferLength = int n\<rparr>"
  define tr1 where "tr1 = [Call (waveInPrepareHeader hdr1 w1) MMSYSERR_NOERROR,
             Call (waveInAddBuffer hdr1 w1) MMSYSERR_NOERROR,
             Call waveInStart MMSYSERR_NOERROR]"
  let ?hdrs = "(\<lambda>_. ZeroMemory)(hdr1 := w1, hdr2 := w2)"
  have "RecordingDevice_record env self samples on_chunk []
     = map_option (\<lambda>(res, tr). (res, tr @ [Call waveInStop MMSYSERR_NOERROR]))
         (record_loop env on_chunk hdr1 hdr2 ?hdrs (ByteArray 0 n) (ByteArray 1 n) True tr1)"
    using record_unfold [OF ok, of samples self on_chunk] True
    by (simp add: n_def w1_def w2_def tr1_def)
  with run obtain tr3
    where loop: "record_loop env on_chunk hdr1 hdr2 ?hdrs (ByteArray 0 n) (ByteArray 1 n) True tr1
                  = Some (res, tr3)"
      and tr: "tr = tr3 @ [Call waveInStop MMSYSERR_NOERROR]"
    by auto
  have out: "outstanding tr1 = [hdr1]"
    by (simp add: tr1_def outstanding_def)
  from record_loop_outstanding [OF loop ok out] show ?thesis
    by (simp add: tr outstanding_append split: sum.splits)
qed

text \<open>
  On a normal exit of \<open>record\<close> one header is still outstanding: the next header, queued
  at the top of the last iteration, is unprepared only on the path of a callback error.
\<close>

lemma record_normal_exit_leaves_next_queued:
  assumes "device_ok env"
    and "RecordingDevice_record env self samples on_chunk [] = Some (Inr (), tr)"
  shows "length (outstanding tr) = 1"
  using record_outstanding [OF assms] by simp

lemma play_outstanding:
  assumes ok: "device_ok env"
    and run: "PlaybackDevice_play env get_data [] = Some (res, tr)"
  shows "outstanding tr = [] \<and> unprepared tr = submitted tr"
proof (cases "\<exists>b. get_data 0 = Return (Some b) \<and> len b \<noteq> 0")
  case False
  with run have "tr = [GetData (get_data 0)]"
    by (auto simp: PlaybackDevice_play_def call_get_data_eq split: cb.splits option.splits if_splits)
  then show ?thesis by (simp add: outstanding_def)
next
  case True
  then obtain b where b: "get_data 0 = Return (Some b)" "len b \<noteq> 0"
    by blast
  define w where "w = \<lparr>lpData = Some b, dwBufferLength = int (len b)\<rparr>"
  define hdrs where "hdrs = (\<lambda>_. ZeroMemory)(hdr2 := w)"
  define tr2 where "tr2 = [GetData (Return (Some b)),
     Call (waveOutPrepareHeader hdr2 w) MMSYSERR_NOERROR, Call (waveOutWrite hdr2 w) MMSYSERR_NOERROR]"
  have "PlaybackDevice_play env get_data [] = play_loop env get_data hdr1 hdr2 hdrs False tr2"
    using b ok
    by (simp add: PlaybackDevice_play_def call_get_data_eq hdr_out_prepare_write_ok Let_def
        w_def hdrs_def tr2_def)
  with run have loop: "play_loop env get_data hdr1 hdr2 hdrs False tr2 = Some (res, tr)"
    by simp
  from play_loop_balanced [OF loop ok] show ?thesis
    by (simp add: tr2_def hdrs_def outstanding_def)
qed

text \<open>
  C2, as stated, fails on the exit path of a device error: when \<open>waveInStart\<close> fails,
  \<open>record\<close> raises the translated error at once, and the header it has submitted before
  is never unprepared.
\<close>

theorem start_failure_leaves_header:
  "RecordingDevice_record no_start_env stereo_16bit 3 take_one []
     = Some (Inl (OSError ''Failed to start recording: device text (0x7)''),
         [Call (waveInPrepareHeader hdr1 \<lparr>lpData = Some (ByteArray 0 12), dwBufferLength = 12\<rparr>) 0,
          Call (waveInAddBuffer hdr1 \<lparr>lpData = Some (ByteArray 0 12), dwBufferLength = 12\<rparr>) 0,
          Call waveInStart 7])
   \<and> outstanding
        [Call (waveInPrepareHeader hdr1 \<lparr>lpData = Some (ByteArray 0 12), dwBufferLength = 12\<rparr>) 0,
         Call (waveInAddBuffer hdr1 \<lparr>lpData = Some (ByteArray 0 12), dwBufferLength = 12\<rparr>) 0,
         Call waveInStart 7] = [hdr1]"
  by code_simp

text \<open>
  C2, amended: on a device whose calls succeed, every call of \<open>play\<close>, on every exit path
  (the producer returns nothing at once or after some chunks, or it raises), ends only
  after every header submitted during the call has been unprepared, in the order of
  submission; and every call of \<open>record\<close> that ends with an error ends only after every
  header submitted during the call, the current one and the next one queued at the top of
  the last iteration, has been unprepared.
\<close>

theorem submitted_slots_unprepared:
  assumes "device_ok env"
  shows "(PlaybackDevice_play env get_data [] = Some (res, tr) \<longrightarrow>
            outstanding tr = [] \<and> unprepared tr = submitted tr)
       \<and> (RecordingDevice_record env self samples on_chunk [] = Some (Inl e, tr') \<longrightarrow>
            outstanding tr' = [])"
  using play_outstanding [OF assms, of get_data res tr]
    record_outstanding [OF assms, of self samples on_chunk "Inl e" tr']
  by simp

theorem submitted_slots_unprepared_witness:
  "outstanding (snd (the (PlaybackDevice_play ideal_env two_chunks []))) = []
   \<and> fst (the (RecordingDevice_record ideal_env stereo_16bit 3 flaky_consumer []))
       = Inl (UserError ''boom'')
   \<and> outstanding (snd (the (RecordingDevice_record ideal_env stereo_16bit 3 flaky_consumer [])))
       = []"
proof -
  have p: "PlaybackDevice_play ideal_env two_chunks []
      = Some (Inr (), snd (the (PlaybackDevice_play ideal_env two_chunks [])))"
    by code_simp
  have r: "RecordingDevice_record ideal_env stereo_16bit 3 flaky_consumer []
      = Some (Inl (UserError ''boom''),
              snd (the (RecordingDevice_record ideal_env stereo_16bit 3 flaky_consumer [])))"
    by code_simp
  have 1: "outstanding (snd (the (PlaybackDevice_play ideal_env two_chunks []))) = []"
    using submitted_slots_unprepared [OF device_ok_ideal, THEN conjunct1, rule_format, OF p]
    by simp
  have 2: "outstanding (snd (the (RecordingDevice_record ideal_env stereo_16bit 3 flaky_consumer [])))
       = []"
    using submitted_slots_unprepared [OF device_ok_ideal, THEN conjunct2, rule_format, OF r]
    by simp
  have 3: "fst (the (RecordingDevice_record ideal_env stereo_16bit 3 flaky_consumer []))
       = Inl (UserError ''boom'')"
    by (subst r) simp
  from 1 2 3 show ?thesis by simp
qed

subsection \<open>Headers in flight during record\<close>

lemma slots_ok_append:
  "slots_ok q (es @ fs) = (slots_ok q es \<and> slots_ok (foldl track q es) fs)"
  by (induction es arbitrary: q) auto

lemma slots_ok_waits:
  "list_all (wait_for h) ws \<Longrightarrow> slots_ok [h, other h] ws"
proof (induction ws)
  case Nil
  then show ?case by simp
next
  case (Cons e ws)
  then obtain r f where "e = Wait h r f"
    using wait_forD [of h e] by auto
  with Cons show ?case by simp
qed

lemma other_neq: "ph \<noteq> pn \<Longrightarrow> pn = other ph"
  by (cases ph; cases pn) simp_all

lemma slots_ok_prefix:
  "slots_ok q tr \<Longrightarrow> n < length tr \<Longrightarrow>
   length (foldl track q (take (Suc n) tr)) \<le> 2 \<and> wait_ok (foldl track q (take n tr)) (tr ! n)"
proof (induction tr arbitrary: q n)
  case Nil
  then show ?case by simp
next
  case (Cons e es)
  show ?case
  proof (cases n)
    case 0
    with Cons.prems show ?thesis by simp
  next
    case (Suc m)
    with Cons.prems have "slots_ok (track q e) es" "m < length es"
      by simp_all
    from Cons.IH [OF this] Suc show ?thesis by simp
  qed
qed

lemma record_loop_slots:
  assumes "record_loop env on_chunk ph pn hdrs d1 d2 True tr = Some (res, tr')" "device_ok env"
    and "outstanding tr = [ph]" "ph \<noteq> pn" "slots_ok [] tr"
  shows "slots_ok [] tr'"
  using assms
proof (induction rule: record_loop_induct)
  case (Raise ph pn d1 d2 tr ws e)
  from Raise.prems(2) have pn: "pn = other ph" by (rule other_neq)
  from Raise.hyps(1) have "slots_ok [ph, other ph] ws" by (rule slots_ok_waits)
  with Raise show ?case
    by (simp add: slots_ok_append outstanding_def [symmetric] pn)
next
  case (Stop ph pn d1 d2 tr ws)
  from Stop.prems(2) have pn: "pn = other ph" by (rule other_neq)
  from Stop.hyps(1) have "slots_ok [ph, other ph] ws" by (rule slots_ok_waits)
  with Stop show ?case
    by (simp add: slots_ok_append outstanding_def [symmetric] pn)
next
  case (Continue ph pn d1 d2 tr ws res tr')
  from Continue.prems(2) have pn: "pn = other ph" by (rule other_neq)
  from Continue.hyps(1) have ws: "slots_ok [ph, other ph] ws" by (rule slots_ok_waits)
  let ?tr1 = "tr @ [Call (waveInPrepareHeader pn (hdrs pn)) MMSYSERR_NOERROR,
                 Call (waveInAddBuffer pn (hdrs pn)) MMSYSERR_NOERROR] @ ws @
                [OnChunk d1 (Return True),
                 Call (waveInUnprepareHeader ph (hdrs ph)) MMSYSERR_NOERROR]"
  show ?case
  proof (rule Continue.IH)
    show "outstanding ?tr1 = [pn]"
      using Continue.prems Continue.hyps by (simp add: outstanding_append)
    show "pn \<noteq> ph"
      using Continue.prems by simp
    show "slots_ok [] ?tr1"
      using Continue.prems Continue.hyps(1) ws
      by (simp add: slots_ok_append outstanding_def [symmetric] pn)
  qed
qed

lemma record_slots:
  assumes ok: "device_ok env"
    and run: "RecordingDevice_record env self samples on_chunk [] = Some (res, tr)"
  shows "slots_ok [] tr"
proof (cases "c_int_range samples")
  case False
  with run have "tr = []"
    by (simp add: RecordingDevice_record_def)
  then show ?thesis by simp
next
  case True
  define n where "n = nat (to_WORD (c_int (nBlockAlign (c_fmt self) * samples)))"
  define w1 where "w1 = \<lparr>lpData = Some (ByteArray 0 n), dwBufferLength = int n\<rparr>"
  define w2 where "w2 = \<lparr>lpData = Some (ByteArray 1 n), dwBufferLength = int n\<rparr>"
  define tr1 where "tr1 = [Call (waveInPrepareHeader hdr1 w1) MMSYSERR_NOERROR,
             Call (waveInAddBuffer hdr1 w1) MMSYSERR_NOERROR,
             Call waveInStart MMSYSERR_NOERROR]"
  let ?hdrs = "(\<lambda>_. ZeroMemory)(hdr1 := w1, hdr2 := w2)"
  have "RecordingDevice_record env self samples on_chunk []
     = map_option (\<lambda>(res, tr). (res, tr @ [Call waveInStop MMSYSERR_NOERROR]))
         (record_loop env on_chunk hdr1 hdr2 ?hdrs (ByteArray 0 n) (ByteArray 1 n) True tr1)"
    using record_unfold [OF ok, of samples self on_chunk] True
    by (simp add: n_def w1_def w2_def tr1_def)
  with run obtain tr3
    where loop: "record_loop env on_chunk hdr1 hdr2 ?hdrs (ByteArray 0 n) (ByteArray 1 n) True tr1
                  = Some (res, tr3)"
      and tr: "tr = tr3 @ [Call waveInStop MMSYSERR_NOERROR]"
    by auto
  have out: "outstanding tr1 = [hdr1]" and s1: "slots_ok [] tr1"
    by (simp_all add: tr1_def outstanding_def)
  from record_loop_slots [OF loop ok out _ s1] have s3: "slots_ok [] tr3"
    by simp
  from record_outstanding [OF ok run] have "length (outstanding tr) \<le> 1"
    by (cases res) simp_all
  with s3 show ?thesis
    by (simp add: tr slots_ok_append outstanding_append outstanding_def [symmetric])
qed

text \<open>
  C8: in every call of \<open>record\<close> that ends, on a device whose calls succeed, at most two
  headers are outstanding at any moment, and at every wait for the current header \<open>h\<close>
  the outstanding headers are \<open>h\<close> and, queued behind it, the other one: the next header has
  been submitted before the engine waits.
\<close>

theorem record_two_outstanding:
  assumes "device_ok env"
    and "RecordingDevice_record env self samples on_chunk [] = Some (res, tr)"
  shows "(\<forall>n\<le>length tr. length (outstanding (take n tr)) \<le> 2)
       \<and> (\<forall>n<length tr. \<forall>h r f. tr ! n = Wait h r f \<longrightarrow> outstanding (take n tr) = [h, other h])"
proof (intro conjI allI impI)
  fix n assume "n \<le> length tr"
  show "length (outstanding (take n tr)) \<le> 2"
  proof (cases n)
    case 0
    then show ?thesis by simp
  next
    case (Suc m)
    with \<open>n \<le> length tr\<close> have "m < length tr" by simp
    from slots_ok_prefix [OF record_slots [OF assms] this] Suc show ?thesis
      by (simp add: outstanding_def)
  qed
next
  fix n h r f assume "n < length tr" "tr ! n = Wait h r f"
  with slots_ok_prefix [OF record_slots [OF assms], of n]
  show "outstanding (take n tr) = [h, other h]"
    by (simp add: outstanding_def)
qed


theorem record_two_outstanding_witness:
  "snd (the (RecordingDevice_record ideal_env stereo_16bit 3 take_two [])) ! 5 = Wait hdr1 0 1
   \<and> outstanding (take 5 (snd (the (RecordingDevice_record ideal_env stereo_16bit 3 take_two []))))
       = [hdr1, hdr2]
   \<and> length (outstanding (take 9 (snd (the (RecordingDevice_record ideal_env stereo_16bit 3 take_two [])))))
       \<le> 2"
proof -
  let ?tr = "snd (the (RecordingDevice_record ideal_env stereo_16bit 3 take_two []))"
  have run: "RecordingDevice_record ideal_env stereo_16bit 3 take_two [] = Some (Inr (), ?tr)"
    by code_simp
  have w: "?tr ! 5 = Wait hdr1 0 1" and l: "5 < length ?tr" "9 \<le> length ?tr"
    by code_simp+
  note two = record_two_outstanding [OF device_ok_ideal run]
  from two [THEN conjunct2, rule_format, OF l(1) w] two [THEN conjunct1, rule_format, OF l(2)] w
  show ?thesis by simp
qed

subsection \<open>The regions handed to the consumer\<close>

lemma handoffs_Nil [simp]: "handoffs [] = []"
  by (simp add: handoffs_def)

lemma handoffs_Cons [simp]: "handoffs (e # es) = handoff e @ handoffs es"
  by (simp add: handoffs_def)

lemma handoffs_append [simp]: "handoffs (tr @ es) = handoffs tr @ handoffs es"
  by (simp add: handoffs_def)

lemma handoffs_waits [simp]: "list_all (wait_for h) ws \<Longrightarrow> handoffs ws = []"
  by (induction ws) (auto dest: wait_forD)

lemma alternate_Suc: "alternate a b (Suc i) = alternate b a i"
  by (simp add: alternate_def)

lemma alternate_0: "alternate a b 0 = a"
  by (simp add: alternate_def)

lemma map_alternate_Suc:
  "map (alternate a b) [0..<Suc k] = a # map (alternate b a) [0..<k]"
  by (simp add: map_upt_Suc alternate_Suc alternate_0 del: upt_Suc)

lemma handoff_pairs_Suc:
  "concat (map (\<lambda>i. [Inl (alternate a b (Suc i)), Inr (alternate a b i)]) [0..<Suc k])
     = Inl b # Inr a # concat (map (\<lambda>i. [Inl (alternate b a (Suc i)), Inr (alternate b a i)]) [0..<k])"
  by (simp add: map_upt_Suc alternate_Suc alternate_0 del: upt_Suc)

lemma record_loop_regions:
  assumes "record_loop env on_chunk ph pn hdrs d1 d2 True tr = Some (res, tr')" "device_ok env"
    and "lpData (hdrs ph) = Some d1" "lpData (hdrs pn) = Some d2"
  shows "\<exists>k. 0 < k \<and> chunks tr' = chunks tr @ map (alternate d1 d2) [0..<k]
           \<and> handoffs tr' = handoffs tr
                @ concat (map (\<lambda>i. [Inl (alternate d1 d2 (Suc i)), Inr (alternate d1 d2 i)]) [0..<k])"
  using assms
proof (induction rule: record_loop_induct)
  case (Raise ph pn d1 d2 tr ws e)
  then show ?case
    by (intro exI [of _ 1]) (simp add: alternate_def)
next
  case (Stop ph pn d1 d2 tr ws)
  then show ?case
    by (intro exI [of _ 1]) (simp add: alternate_def)
next
  case (Continue ph pn d1 d2 tr ws res tr')
  let ?tr1 = "tr @ [Call (waveInPrepareHeader pn (hdrs pn)) MMSYSERR_NOERROR,
                 Call (waveInAddBuffer pn (hdrs pn)) MMSYSERR_NOERROR] @ ws @
                [OnChunk d1 (Return True),
                 Call (waveInUnprepareHeader ph (hdrs ph)) MMSYSERR_NOERROR]"
  from Continue.IH [OF Continue.prems(2,1)] obtain k
    where k: "chunks tr' = chunks ?tr1 @ map (alternate d2 d1) [0..<k]"
      "handoffs tr' = handoffs ?tr1
         @ concat (map (\<lambda>i. [Inl (alternate d2 d1 (Suc i)), Inr (alternate d2 d1 i)]) [0..<k])"
    by blast
  have c1: "chunks ?tr1 = chunks tr @ [d1]" and h1: "handoffs ?tr1 = handoffs tr @ [Inl d2, Inr d1]"
    using Continue.hyps(1) Continue.prems by simp_all
  show ?case
  proof (intro exI [of _ "Suc k"] conjI)
    show "0 < Suc k" by simp
    show "chunks tr' = chunks tr @ map (alternate d1 d2) [0..<Suc k]"
      unfolding k(1) c1 map_alternate_Suc by simp
    show "handoffs tr' = handoffs tr
        @ concat (map (\<lambda>i. [Inl (alternate d1 d2 (Suc i)), Inr (alternate d1 d2 i)]) [0..<Suc k])"
      unfolding k(2) h1 handoff_pairs_Suc by simp
  qed
qed

text \<open>
  C10: in every call of \<open>record\<close> that ends, on a device whose calls succeed, the consumer
  is handed one of the two bytearrays allocated at the start of the call, the first one on
  its invocations of even index and the second one on those of odd index, so invocations
  \<open>i\<close> and \<open>i + 2\<close> receive the same mutable region. The regions change hands in this
  order: the first region goes to the device; then, for every invocation \<open>i\<close>, the region
  of invocation \<open>i + 1\<close> goes to the device and the region of invocation \<open>i\<close> to the
  consumer. So between two invocations on the same region that region is given to the
  device to be filled again, and what the consumer wants to keep it has to copy.
\<close>

theorem record_regions_alternate:
  assumes ok: "device_ok env"
    and run: "RecordingDevice_record env self samples on_chunk [] = Some (res, tr)"
  defines "d1 \<equiv> ByteArray 0 (nat (to_WORD (c_int (nBlockAlign (c_fmt self) * samples))))"
  defines "d2 \<equiv> ByteArray 1 (nat (to_WORD (c_int (nBlockAlign (c_fmt self) * samples))))"
  shows "chunks tr = map (alternate d1 d2) [0..<length (chunks tr)]
       \<and> (chunks tr \<noteq> [] \<longrightarrow>
            handoffs tr = Inl d1 # concat (map (\<lambda>i. [Inl (alternate d1 d2 (Suc i)),
                                                      Inr (alternate d1 d2 i)])
                                              [0..<length (chunks tr)]))"
proof (cases "c_int_range samples")
  case False
  with run have "tr = []"
    by (simp add: RecordingDevice_record_def)
  then show ?thesis by simp
next
  case True
  define n where "n = nat (to_WORD (c_int (nBlockAlign (c_fmt self) * samples)))"
  define w1 where "w1 = \<lparr>lpData = Some (ByteArray 0 n), dwBufferLength = int n\<rparr>"
  define w2 where "w2 = \<lparr>lpData = Some (ByteArray 1 n), dwBufferLength = int n\<rparr>"
  define tr1 where "tr1 = [Call (waveInPrepareHeader hdr1 w1) MMSYSERR_NOERROR,
             Call (waveInAddBuffer hdr1 w1) MMSYSERR_NOERROR,
             Call waveInStart MMSYSERR_NOERROR]"
  let ?hdrs = "(\<lambda>_. ZeroMemory)(hdr1 := w1, hdr2 := w2)"
  have d: "d1 = ByteArray 0 n" "d2 = ByteArray 1 n"
    by (simp_all add: d1_def d2_def n_def)
  have "RecordingDevice_record env self samples on_chunk []
     = map_option (\<lambda>(res, tr). (res, tr @ [Call waveInStop MMSYSERR_NOERROR]))
         (record_loop env on_chunk hdr1 hdr2 ?hdrs (ByteArray 0 n) (ByteArray 1 n) True tr1)"
    using record_unfold [OF ok, of samples self on_chunk] True
    by (simp add: n_def w1_def w2_def tr1_def)
  with run obtain tr3
    where loop: "record_loop env on_chunk hdr1 hdr2 ?hdrs d1 d2 True tr1 = Some (res, tr3)"
      and tr: "tr = tr3 @ [Call waveInStop MMSYSERR_NOERROR]"
    unfolding d by auto
  have "lpData (?hdrs hdr1) = Some d1" "lpData (?hdrs hdr2) = Some d2"
    by (simp_all add: w1_def w2_def d)
  from record_loop_regions [OF loop ok this] obtain k
    where k: "0 < k" "chunks tr3 = chunks tr1 @ map (alternate d1 d2) [0..<k]"
      "handoffs tr3 = handoffs tr1
         @ concat (map (\<lambda>i. [Inl (alternate d1 d2 (Suc i)), Inr (alternate d1 d2 i)]) [0..<k])"
    by blast
  have c: "chunks tr = map (alternate d1 d2) [0..<k]"
    using k(2) by (simp add: tr tr1_def)
  then have len: "length (chunks tr) = k"
    by simp
  have "handoffs tr = Inl d1
      # concat (map (\<lambda>i. [Inl (alternate d1 d2 (Suc i)), Inr (alternate d1 d2 i)]) [0..<k])"
    using k(3) by (simp add: tr tr1_def w1_def d)
  with c len show ?thesis by simp
qed

theorem record_regions_alternate_witness:
  "chunks (snd (the (RecordingDevice_record ideal_env stereo_16bit 3 take_three [])))
     = [ByteArray 0 12, ByteArray 1 12, ByteArray 0 12]
   \<and> handoffs (snd (the (RecordingDevice_record ideal_env stereo_16bit 3 take_three [])))
     = [Inl (ByteArray 0 12),
        Inl (ByteArray 1 12), Inr (ByteArray 0 12),
        Inl (ByteArray 0 12), Inr (ByteArray 1 12),
        Inl (ByteArray 1 12), Inr (ByteArray 0 12)]"
proof -
  let ?tr = "snd (the (RecordingDevice_record ideal_env stereo_16bit 3 take_three []))"
  have run: "RecordingDevice_record ideal_env stereo_16bit 3 take_three [] = Some (Inr (), ?tr)"
    by code_simp
  have len: "length (chunks ?tr) = 3"
    by code_simp
  have n: "nat (to_WORD (c_int (nBlockAlign (c_fmt stereo_16bit) * 3))) = 12"
    by (simp add: stereo_16bit_blockAlign c_int_def to_WORD_def)
  from record_regions_alternate [OF device_ok_ideal run] len
  show ?thesis
    by (simp add: n alternate_def upt_rec)
qed

end
